theory Spec2Isabelle
  imports Complex_Main "HOL-Library.Word" "HOL-Library.Log_Nat"
begin

section \<open>JavaScript strings\<close>

text \<open>
  A JavaScript string is a sequence of UTF-16 code units. The literals of the source
  are ASCII; \<open>js\<close> embeds an ASCII literal.
\<close>

type_synonym jsstring = "16 word list"

definition js :: "string \<Rightarrow> jsstring" where
  "js s = map (\<lambda>c. of_char c) s"

text \<open>
  \<open>String.prototype.trim\<close> removes WhiteSpace and LineTerminator code points from both
  ends: TAB, LF, VT, FF, CR, SP, NBSP, the Unicode space separators (category Zs), LS, PS
  and the byte order mark.
\<close>

definition isTrimChar :: "16 word \<Rightarrow> bool" where
  "isTrimChar c \<longleftrightarrow>
     c \<in> set [0x9, 0xA, 0xB, 0xC, 0xD, 0x20, 0xA0, 0x1680,
               0x2000, 0x2001, 0x2002, 0x2003, 0x2004, 0x2005, 0x2006, 0x2007,
               0x2008, 0x2009, 0x200A, 0x2028, 0x2029, 0x202F, 0x205F, 0x3000, 0xFEFF]"

definition trim :: "jsstring \<Rightarrow> jsstring" where
  "trim s = rev (dropWhile isTrimChar (rev (dropWhile isTrimChar s)))"

section \<open>ChatInput: data and effects\<close>

text \<open>\<open>AttachedImage\<close>: \<open>{ id, data, mimeType }\<close>.\<close>

record attached_image =
  img_id :: jsstring
  img_data :: jsstring
  img_mimeType :: jsstring

text \<open>\<open>ImagePromptContent\<close> as built in \<open>handleSendOrStop\<close>: \<open>{ type: "image", data, mimeType }\<close>.\<close>

record image_prompt =
  ip_type :: jsstring
  ip_data :: jsstring
  ip_mimeType :: jsstring

text \<open>\<open>SlashCommand\<close>: the fields the component reads.\<close>

record slash_command =
  cmd_name :: jsstring
  cmd_hint :: "jsstring option"

text \<open>The four notices the component shows (\<open>new Notice(...)\<close>), by their message.\<close>

datatype notice =
    MaxImagesNotice        \<comment> \<open>"[Agent Client] Maximum 10 images allowed"\<close>
  | ImageTooLargeNotice    \<comment> \<open>"[Agent Client] Image too large (max 5MB)"\<close>
  | AttachFailedNotice     \<comment> \<open>"[Agent Client] Failed to attach image"\<close>
  | NotSupportedNotice     \<comment> \<open>"[Agent Client] This agent does not support image attachments"\<close>

datatype direction = Down | Up

text \<open>
  ChatInput is a controlled component: it holds the text and the images as props and
  changes them only by calling the callbacks of its host. A handler of the component is
  modelled as the list of calls it makes, in the order it makes them; \<open>'n\<close> is the type
  of a mention suggestion (\<open>NoteMetadata\<close>).
\<close>

datatype 'n effect =
    ShowNotice notice
  | OnAttachedImagesChange "attached_image list"
  | OnInputChange jsstring
  | SetHintText "jsstring option"
  | SetCommandText jsstring
  | SetIsDraggingOver bool
  | SetDragCounter int
  | PreventDefault
  | OnStopGeneration
  | OnSendMessage jsstring "image_prompt list option"
  | SlashNavigate direction
  | MentionNavigate direction
  | SlashClose
  | MentionClose
  | SlashSelectSuggestion jsstring slash_command
  | MentionSelectSuggestion jsstring 'n
  | FocusCursorLater nat

text \<open>
  What the calls act on: the text and images held by the host, the local state of the
  component (hint, command text, drag feedback), the open flags of the two suggestion
  engines, and what the environment has seen (notices, sends, stops, whether the default
  handling of the event was prevented).
\<close>

record chat_state =
  inputValue :: jsstring
  attachedImages :: "attached_image list"
  hintText :: "jsstring option"
  commandText :: jsstring
  isDraggingOver :: bool
  dragCounter :: int
  slashOpen :: bool
  mentionOpen :: bool
  notices :: "notice list"
  sent :: "(jsstring \<times> image_prompt list option) list"
  stops :: nat
  defaultPrevented :: bool

text \<open>
  Modelled from the spec: the host of ChatInput and the two suggestion engines
  (\<open>useMentions\<close>, \<open>useSlashCommands\<close>) are not among the sources. The host stores what
  \<open>onInputChange\<close> and \<open>onAttachedImagesChange\<close> hand it (section 3: the input state is
  owned by the hosting view container). An engine's \<open>close()\<close> closes its dropdown, and
  applying a suggestion with \<open>selectSuggestion\<close> leaves the dropdown closed (section
  4.1: Enter or Tab applies the highlighted suggestion and closes the dropdown);
  navigation moves the selection only.
\<close>

fun apply_effect :: "'n effect \<Rightarrow> chat_state \<Rightarrow> chat_state" where
  "apply_effect (ShowNotice n) s = s\<lparr>notices := notices s @ [n]\<rparr>"
| "apply_effect (OnAttachedImagesChange imgs) s = s\<lparr>attachedImages := imgs\<rparr>"
| "apply_effect (OnInputChange t) s = s\<lparr>inputValue := t\<rparr>"
| "apply_effect (SetHintText h) s = s\<lparr>hintText := h\<rparr>"
| "apply_effect (SetCommandText t) s = s\<lparr>commandText := t\<rparr>"
| "apply_effect (SetIsDraggingOver b) s = s\<lparr>isDraggingOver := b\<rparr>"
| "apply_effect (SetDragCounter k) s = s\<lparr>dragCounter := k\<rparr>"
| "apply_effect PreventDefault s = s\<lparr>defaultPrevented := True\<rparr>"
| "apply_effect OnStopGeneration s = s\<lparr>stops := Suc (stops s)\<rparr>"
| "apply_effect (OnSendMessage m imgs) s = s\<lparr>sent := sent s @ [(m, imgs)]\<rparr>"
| "apply_effect (SlashNavigate d) s = s"
| "apply_effect (MentionNavigate d) s = s"
| "apply_effect SlashClose s = s\<lparr>slashOpen := False\<rparr>"
| "apply_effect MentionClose s = s\<lparr>mentionOpen := False\<rparr>"
| "apply_effect (SlashSelectSuggestion t c) s = s\<lparr>slashOpen := False\<rparr>"
| "apply_effect (MentionSelectSuggestion t n) s = s\<lparr>mentionOpen := False\<rparr>"
| "apply_effect (FocusCursorLater k) s = s"

definition run :: "'n effect list \<Rightarrow> chat_state \<Rightarrow> chat_state" where
  "run effs s = foldl (\<lambda>s e. apply_effect e s) s effs"

section \<open>ChatInput: submit\<close>

text \<open>
  \<open>handleSendOrStop\<close>. A JavaScript string is falsy exactly when it is empty, so
  \<open>!inputValue.trim()\<close> is \<open>trim inputValue = []\<close>.
\<close>

definition toImagePrompt :: "attached_image \<Rightarrow> image_prompt" where
  "toImagePrompt img =
     \<lparr>ip_type = js ''image'', ip_data = img_data img, ip_mimeType = img_mimeType img\<rparr>"

definition handleSendOrStop ::
  "bool \<Rightarrow> jsstring \<Rightarrow> attached_image list \<Rightarrow> 'n effect list" where
  "handleSendOrStop isSending inputVal images =
     (if isSending then [OnStopGeneration]
      else if trim inputVal = [] \<and> length images = 0 then []
      else
        (let messageToSend = trim inputVal;
             imagesToSend = map toImagePrompt images
         in [OnInputChange [], OnAttachedImagesChange [], SetHintText None, SetCommandText [],
             OnSendMessage messageToSend
               (if length imagesToSend > 0 then Some imagesToSend else None)]))"

definition isButtonDisabled ::
  "bool \<Rightarrow> jsstring \<Rightarrow> attached_image list \<Rightarrow> bool \<Rightarrow> bool \<Rightarrow> bool" where
  "isButtonDisabled isSending inputVal images isSessionReady isRestoringSession \<longleftrightarrow>
     \<not> isSending \<and>
     ((trim inputVal = [] \<and> length images = 0) \<or> \<not> isSessionReady \<or> isRestoringSession)"

text \<open>
  The effect \<open>useEffect(() => onAttachedImagesChange([]), [agentId, onAttachedImagesChange])\<close>:
  React runs it after the first render and after every render in which a dependency
  differs from the previous render. The identity of the callback is a number here.
\<close>

definition agentIdEffect :: "(jsstring \<times> nat) option \<Rightarrow> (jsstring \<times> nat) \<Rightarrow> 'n effect list" where
  "agentIdEffect prevDeps deps =
     (case prevDeps of
        None \<Rightarrow> [OnAttachedImagesChange []]
      | Some p \<Rightarrow> if fst p \<noteq> fst deps \<or> snd p \<noteq> snd deps then [OnAttachedImagesChange []] else [])"

section \<open>ChatInput: image attachments\<close>

definition MAX_IMAGE_SIZE_MB :: nat where
  "MAX_IMAGE_SIZE_MB = 5"

definition MAX_IMAGE_SIZE_BYTES :: nat where
  "MAX_IMAGE_SIZE_BYTES = MAX_IMAGE_SIZE_MB * 1024 * 1024"

definition MAX_IMAGE_COUNT :: nat where
  "MAX_IMAGE_COUNT = 10"

definition SUPPORTED_IMAGE_TYPES :: "jsstring list" where
  "SUPPORTED_IMAGE_TYPES = [js ''image/png'', js ''image/jpeg'', js ''image/gif'', js ''image/webp'']"

text \<open>
  A \<open>File\<close> as the component sees it: its size in bytes, its MIME type, and what
  \<open>fileToBase64\<close> gives for it: the base64 text, or \<open>None\<close> when the reader fails and
  the promise is rejected.
\<close>

record js_file =
  file_size :: nat
  file_type :: jsstring
  readAsBase64 :: "jsstring option"

text \<open>A \<open>DataTransferItem\<close> of the clipboard: its type, and the file \<open>getAsFile()\<close> returns, if any.\<close>

record clipboard_item =
  item_type :: jsstring
  getAsFile :: "js_file option"

text \<open>
  \<open>addImage\<close> and \<open>removeImage\<close>. Both close over \<open>attachedImages\<close>, the prop of the
  render that created them, here the argument \<open>attached\<close>.
\<close>

definition addImage :: "attached_image list \<Rightarrow> attached_image \<Rightarrow> 'n effect list" where
  "addImage attached img =
     (if length attached \<ge> MAX_IMAGE_COUNT then []
      else [OnAttachedImagesChange (attached @ [img])])"

definition removeImage :: "attached_image list \<Rightarrow> jsstring \<Rightarrow> 'n effect list" where
  "removeImage attached i = [OnAttachedImagesChange (filter (\<lambda>img. img_id img \<noteq> i) attached)]"

text \<open>
  The loop of \<open>processImageFiles\<close>, with its counter \<open>addedCount\<close>. \<open>randomUUID k\<close> is
  the identifier \<open>crypto.randomUUID()\<close> returns at its \<open>k\<close>-th call in the batch (counted
  from 0); the calls and the increments of \<open>addedCount\<close> go together. The loop and
  \<open>addImage\<close> read the same captured \<open>attached\<close> throughout the batch.
\<close>

fun processLoop ::
  "(nat \<Rightarrow> jsstring) \<Rightarrow> attached_image list \<Rightarrow> nat \<Rightarrow> js_file list \<Rightarrow> 'n effect list" where
  "processLoop randomUUID attached addedCount [] = []"
| "processLoop randomUUID attached addedCount (f # files) =
     (if length attached + addedCount \<ge> MAX_IMAGE_COUNT then [ShowNotice MaxImagesNotice]
      else if file_size f > MAX_IMAGE_SIZE_BYTES then
        ShowNotice ImageTooLargeNotice # processLoop randomUUID attached addedCount files
      else
        (case readAsBase64 f of
           None \<Rightarrow> ShowNotice AttachFailedNotice # processLoop randomUUID attached addedCount files
         | Some base64 \<Rightarrow>
             addImage attached
               \<lparr>img_id = randomUUID addedCount, img_data = base64, img_mimeType = file_type f\<rparr>
             @ processLoop randomUUID attached (addedCount + 1) files))"

definition processImageFiles ::
  "(nat \<Rightarrow> jsstring) \<Rightarrow> attached_image list \<Rightarrow> js_file list \<Rightarrow> 'n effect list" where
  "processImageFiles randomUUID attached files = processLoop randomUUID attached 0 files"

text \<open>\<open>handlePaste\<close>; \<open>items\<close> is \<open>e.clipboardData?.items\<close>, \<open>None\<close> when it is undefined.\<close>

definition handlePaste ::
  "bool \<Rightarrow> (nat \<Rightarrow> jsstring) \<Rightarrow> attached_image list \<Rightarrow> clipboard_item list option
     \<Rightarrow> 'n effect list" where
  "handlePaste supportsImages randomUUID attached items =
     (case items of
        None \<Rightarrow> []
      | Some its \<Rightarrow>
          (let imageFiles = concat (map (\<lambda>item.
                 if item_type item \<in> set SUPPORTED_IMAGE_TYPES
                 then (case getAsFile item of Some fl \<Rightarrow> [fl] | None \<Rightarrow> [])
                 else []) its)
           in if length imageFiles = 0 then []
              else PreventDefault #
                (if \<not> supportsImages then [ShowNotice NotSupportedNotice]
                 else processImageFiles randomUUID attached imageFiles)))"

text \<open>\<open>handleDrop\<close>; \<open>files\<close> is \<open>e.dataTransfer?.files\<close>.\<close>

definition handleDrop ::
  "bool \<Rightarrow> (nat \<Rightarrow> jsstring) \<Rightarrow> attached_image list \<Rightarrow> js_file list option \<Rightarrow> 'n effect list" where
  "handleDrop supportsImages randomUUID attached files =
     [SetDragCounter 0, SetIsDraggingOver False] @
     (case files of
        None \<Rightarrow> []
      | Some fs \<Rightarrow>
          if length fs = 0 then []
          else
            (let imageFiles = filter (\<lambda>fl. file_type fl \<in> set SUPPORTED_IMAGE_TYPES) fs
             in if length imageFiles = 0 then []
                else PreventDefault #
                  (if \<not> supportsImages then [ShowNotice NotSupportedNotice]
                   else processImageFiles randomUUID attached imageFiles)))"

text \<open>
  Modelled from the spec: the host of ChatInput, which holds the attached images, is not
  among the sources. These are the lists it can come to hold when the files offered to
  the component are those of \<open>F\<close>: it starts with none (and a send or a change of agent
  brings it back there); a batch runs in the closure of some render, whose
  \<open>attachedImages\<close> prop is a list the host held at that render, and each
  \<open>onAttachedImagesChange\<close> the batch makes gives the host a new list, whatever other
  batch runs in between; removing an image does the same from the closure of
  \<open>removeImage\<close>.
\<close>

inductive_set stored_images :: "js_file set \<Rightarrow> attached_image list set" for F :: "js_file set" where
  initial: "[] \<in> stored_images F"
| attach: "attached \<in> stored_images F \<Longrightarrow> set files \<subseteq> F \<Longrightarrow>
     (OnAttachedImagesChange imgs :: unit effect) \<in> set (processImageFiles randomUUID attached files) \<Longrightarrow>
     imgs \<in> stored_images F"
| remove: "attached \<in> stored_images F \<Longrightarrow>
     (OnAttachedImagesChange imgs :: unit effect) \<in> set (removeImage attached i) \<Longrightarrow>
     imgs \<in> stored_images F"

text \<open>Concrete inputs: identifiers, a 2 MB PNG, a 7 MB JPEG, ten attached images.\<close>

definition uuids :: "nat \<Rightarrow> jsstring" where
  "uuids k = js ''id-'' @ [of_nat (48 + k)]"

definition png2 :: js_file where
  "png2 = \<lparr>file_size = 2 * 1024 * 1024, file_type = js ''image/png'', readAsBase64 = Some (js ''iVBORw0KGgo='')\<rparr>"

definition jpeg7 :: js_file where
  "jpeg7 = \<lparr>file_size = 7 * 1024 * 1024, file_type = js ''image/jpeg'', readAsBase64 = Some (js ''/9j/4AAQ'')\<rparr>"

definition ten_images :: "attached_image list" where
  "ten_images = map (\<lambda>k. \<lparr>img_id = uuids k, img_data = js ''iVBORw0KGgo='', img_mimeType = js ''image/png''\<rparr>) [0..<10]"

text \<open>A file the loop converts and hands to \<open>addImage\<close>: within the byte cap and readable.\<close>

definition attachable :: "js_file \<Rightarrow> bool" where
  "attachable f \<longleftrightarrow> \<not> file_size f > MAX_IMAGE_SIZE_BYTES \<and> readAsBase64 f \<noteq> None"

definition png_item :: clipboard_item where
  "png_item = \<lparr>item_type = js ''image/png'', getAsFile = Some png2\<rparr>"

text \<open>A state to start from: empty input, nothing attached, both dropdowns closed.\<close>

definition s0 :: chat_state where
  "s0 = \<lparr>inputValue = [], attachedImages = [], hintText = None, commandText = [],
         isDraggingOver = False, dragCounter = 0, slashOpen = False, mentionOpen = False,
         notices = [], sent = [], stops = 0, defaultPrevented = False\<rparr>"

section \<open>ChatInput: suggestion dropdowns\<close>

text \<open>
  What the component reads of a suggestion engine (\<open>UseMentionsReturn\<close>,
  \<open>UseSlashCommandsReturn\<close>): the open flag, the suggestions and the selected index.
\<close>

record 'a suggestion_engine =
  isOpen :: bool
  suggestions :: "'a list"
  selectedIndex :: int

text \<open>\<open>xs[i]\<close> of JavaScript: \<open>undefined\<close> outside the array.\<close>

definition js_index :: "'a list \<Rightarrow> int \<Rightarrow> 'a option" where
  "js_index xs i = (if 0 \<le> i \<and> i < int (length xs) then Some (xs ! nat i) else None)"

datatype key = ArrowDown | ArrowUp | Enter | Tab | Escape | OtherKey

record keyboard_event =
  ev_key :: key
  ev_isComposing :: bool

text \<open>
  \<open>handleSelectSlashCommand\<close> and \<open>selectMention\<close>. The text an engine's
  \<open>selectSuggestion\<close> returns is a parameter (\<open>slashText\<close>, \<open>mentionText\<close>); the call
  itself is an effect. \<open>command.hint\<close> is truthy when it is a non-empty string.
\<close>

definition handleSelectSlashCommand ::
  "(jsstring \<Rightarrow> slash_command \<Rightarrow> jsstring) \<Rightarrow> jsstring \<Rightarrow> slash_command \<Rightarrow> 'n effect list" where
  "handleSelectSlashCommand slashText inputVal command =
     (let newText = slashText inputVal command;
          cmdText = js ''/'' @ cmd_name command @ js '' ''
      in [SlashSelectSuggestion inputVal command, OnInputChange newText] @
         (case cmd_hint command of
            Some h \<Rightarrow> if h \<noteq> [] then [SetCommandText cmdText, SetHintText (Some h)]
                      else [SetHintText None, SetCommandText []]
          | None \<Rightarrow> [SetHintText None, SetCommandText []]) @
         [FocusCursorLater
            (case cmd_hint command of
               Some h \<Rightarrow> if h \<noteq> [] then length cmdText else length newText
             | None \<Rightarrow> length newText)])"

definition selectMention ::
  "(jsstring \<Rightarrow> 'n \<Rightarrow> jsstring) \<Rightarrow> jsstring \<Rightarrow> 'n \<Rightarrow> 'n effect list" where
  "selectMention mentionText inputVal suggestion =
     (let newText = mentionText inputVal suggestion
      in [MentionSelectSuggestion inputVal suggestion, OnInputChange newText,
          FocusCursorLater (length newText)])"

text \<open>\<open>handleDropdownKeyPress\<close>: the boolean it returns and the calls it makes.\<close>

definition handleDropdownKeyPress ::
  "(jsstring \<Rightarrow> slash_command \<Rightarrow> jsstring) \<Rightarrow> (jsstring \<Rightarrow> 'n \<Rightarrow> jsstring) \<Rightarrow> jsstring \<Rightarrow>
   slash_command suggestion_engine \<Rightarrow> 'n suggestion_engine \<Rightarrow> keyboard_event \<Rightarrow>
   bool \<times> 'n effect list" where
  "handleDropdownKeyPress slashText mentionText inputVal slashCommands mentions e =
     (let isSlashCommandActive = isOpen slashCommands;
          isMentionActive = isOpen mentions
      in if \<not> isSlashCommandActive \<and> \<not> isMentionActive then (False, [])
         else if ev_key e = ArrowDown then
           (True, PreventDefault #
              (if isSlashCommandActive then [SlashNavigate Down] else [MentionNavigate Down]))
         else if ev_key e = ArrowUp then
           (True, PreventDefault #
              (if isSlashCommandActive then [SlashNavigate Up] else [MentionNavigate Up]))
         else if ev_key e = Enter \<or> ev_key e = Tab then
           (if ev_key e = Enter \<and> ev_isComposing e then (False, [])
            else
              (True, PreventDefault #
                 (if isSlashCommandActive then
                    (case js_index (suggestions slashCommands) (selectedIndex slashCommands) of
                       Some selectedCommand \<Rightarrow>
                         handleSelectSlashCommand slashText inputVal selectedCommand
                     | None \<Rightarrow> [])
                  else
                    (case js_index (suggestions mentions) (selectedIndex mentions) of
                       Some selectedSuggestion \<Rightarrow> selectMention mentionText inputVal selectedSuggestion
                     | None \<Rightarrow> []))))
         else if ev_key e = Escape then
           (True, PreventDefault # (if isSlashCommandActive then [SlashClose] else [MentionClose]))
         else (False, []))"





text \<open>Concrete engines: both open, with one suggestion each.\<close>

definition help_command :: slash_command where
  "help_command = \<lparr>cmd_name = js ''help'', cmd_hint = None\<rparr>"


definition open_mentions :: "nat suggestion_engine" where
  "open_mentions = \<lparr>isOpen = True, suggestions = [7], selectedIndex = 0\<rparr>"

definition slashText0 :: "jsstring \<Rightarrow> slash_command \<Rightarrow> jsstring" where
  "slashText0 t c = js ''/'' @ cmd_name c @ js '' ''"

definition mentionText0 :: "jsstring \<Rightarrow> nat \<Rightarrow> jsstring" where
  "mentionText0 t n = t @ js ''note''"

definition typing_slash :: chat_state where
  "typing_slash = s0\<lparr>inputValue := js ''/he'', slashOpen := True, mentionOpen := True\<rparr>"

definition tab_composing :: keyboard_event where
  "tab_composing = \<lparr>ev_key = Tab, ev_isComposing = True\<rparr>"

definition enter_composing :: keyboard_event where
  "enter_composing = \<lparr>ev_key = Enter, ev_isComposing = True\<rparr>"

definition escape_key :: keyboard_event where
  "escape_key = \<lparr>ev_key = Escape, ev_isComposing = False\<rparr>"


text \<open>More concrete engines and keys.\<close>

definition clear_command :: slash_command where
  "clear_command = \<lparr>cmd_name = js ''clear'', cmd_hint = None\<rparr>"

definition second_highlighted :: "slash_command suggestion_engine" where
  "second_highlighted = \<lparr>isOpen = True, suggestions = [help_command, clear_command], selectedIndex = 1\<rparr>"

definition nothing_highlighted :: "slash_command suggestion_engine" where
  "nothing_highlighted = \<lparr>isOpen = True, suggestions = [], selectedIndex = 0\<rparr>"

definition closed_slash :: "slash_command suggestion_engine" where
  "closed_slash = \<lparr>isOpen = False, suggestions = [], selectedIndex = 0\<rparr>"

definition closed_mentions :: "nat suggestion_engine" where
  "closed_mentions = \<lparr>isOpen = False, suggestions = [], selectedIndex = 0\<rparr>"

definition third_note :: "nat suggestion_engine" where
  "third_note = \<lparr>isOpen = True, suggestions = [7, 8, 9], selectedIndex = 2\<rparr>"

definition tab_key :: keyboard_event where
  "tab_key = \<lparr>ev_key = Tab, ev_isComposing = False\<rparr>"


definition slash_only :: chat_state where
  "slash_only = s0\<lparr>inputValue := js ''/c'', slashOpen := True\<rparr>"

definition mention_only :: chat_state where
  "mention_only = s0\<lparr>inputValue := js ''see @'', mentionOpen := True\<rparr>"

section \<open>FloatingButton: instance labels\<close>

text \<open>What \<open>instanceLabels\<close> reads of a floating view: \<open>viewId\<close> and \<open>getDisplayName()\<close>.\<close>

record floating_view =
  view_viewId :: jsstring
  getDisplayName :: jsstring

record label_entry =
  viewId :: jsstring
  label :: jsstring

text \<open>
  \<open>`${idx}`\<close>: the decimal digits of a positive integer (the counts here are far below
  the point where a JavaScript number stops being exact or prints with an exponent).
\<close>

fun numberToString :: "nat \<Rightarrow> jsstring" where
  "numberToString n =
     (if n < 10 then [of_nat (48 + n)]
      else numberToString (n div 10) @ [of_nat (48 + n mod 10)])"

declare numberToString.simps [simp del]

text \<open>\<open>map.get(k) ?? 0\<close> on a \<open>Map<string, number>\<close>.\<close>

definition getOr0 :: "(jsstring \<rightharpoonup> nat) \<Rightarrow> jsstring \<Rightarrow> nat" where
  "getOr0 m k = (case m k of None \<Rightarrow> 0 | Some c \<Rightarrow> c)"

text \<open>The loop that fills \<open>countMap\<close>.\<close>

fun countLoop :: "(jsstring \<rightharpoonup> nat) \<Rightarrow> label_entry list \<Rightarrow> (jsstring \<rightharpoonup> nat)" where
  "countLoop countMap [] = countMap"
| "countLoop countMap (e # es) = countLoop (countMap(label e \<mapsto> getOr0 countMap (label e) + 1)) es"

text \<open>\<open>entries.map(...)\<close> with its callback, which updates \<open>indexMap\<close> as it goes.\<close>

fun labelLoop ::
  "(jsstring \<rightharpoonup> nat) \<Rightarrow> (jsstring \<rightharpoonup> nat) \<Rightarrow> label_entry list \<Rightarrow> label_entry list" where
  "labelLoop countMap indexMap [] = []"
| "labelLoop countMap indexMap (e # es) =
     (if getOr0 countMap (label e) > 1 then
        (let idx = getOr0 indexMap (label e) + 1
         in \<lparr>viewId = viewId e,
             label = (if idx = 1 then label e else label e @ js '' '' @ numberToString idx)\<rparr>
            # labelLoop countMap (indexMap(label e \<mapsto> idx)) es)
      else e # labelLoop countMap indexMap es)"

definition instanceLabels :: "floating_view list \<Rightarrow> label_entry list" where
  "instanceLabels views =
     (let entries = map (\<lambda>v. \<lparr>viewId = view_viewId v, label = getDisplayName v\<rparr>) views;
          countMap = countLoop Map.empty entries
      in labelLoop countMap Map.empty entries)"

definition chat_chat_research :: "floating_view list" where
  "chat_chat_research =
     [\<lparr>view_viewId = js ''v1'', getDisplayName = js ''Chat''\<rparr>,
      \<lparr>view_viewId = js ''v2'', getDisplayName = js ''Chat''\<rparr>,
      \<lparr>view_viewId = js ''v3'', getDisplayName = js ''Research''\<rparr>]"

definition three_chats :: "floating_view list" where
  "three_chats =
     [\<lparr>view_viewId = js ''v1'', getDisplayName = js ''Chat''\<rparr>,
      \<lparr>view_viewId = js ''v2'', getDisplayName = js ''Chat''\<rparr>,
      \<lparr>view_viewId = js ''v3'', getDisplayName = js ''Chat''\<rparr>]"

section \<open>Chat font size\<close>

text \<open>
  A JavaScript number: NaN, the two infinities, or a finite value. A finite double is a
  real number; \<open>Fin\<close> takes any real, so what is proved for every \<open>Fin x\<close> holds for
  every finite double.
\<close>

datatype jsnum = NaN | PosInf | NegInf | Fin real

text \<open>A JavaScript value by its \<open>typeof\<close>; \<open>JSOther\<close> is a boolean, object, function, symbol or bigint.\<close>

datatype jsvalue = JSNull | JSUndefined | JSNumber jsnum | JSString jsstring | JSOther

definition CHAT_FONT_SIZE_MIN :: int where
  "CHAT_FONT_SIZE_MIN = 10"

definition CHAT_FONT_SIZE_MAX :: int where
  "CHAT_FONT_SIZE_MAX = 24"

text \<open>\<open>\d\<close> of a regular expression: the ASCII digits.\<close>

definition isDigit :: "16 word \<Rightarrow> bool" where
  "isDigit c \<longleftrightarrow> 0x30 \<le> c \<and> c \<le> 0x39"

text \<open>\<open>/^-?\d+$/.test(s)\<close>: an optional minus sign, then one or more digits, to the end.\<close>

definition testInteger :: "jsstring \<Rightarrow> bool" where
  "testInteger s =
     (case s of
        [] \<Rightarrow> False
      | c # cs \<Rightarrow> if c = 0x2D then cs \<noteq> [] \<and> list_all isDigit cs else list_all isDigit (c # cs))"

definition digitsValue :: "jsstring \<Rightarrow> int" where
  "digitsValue ds = foldl (\<lambda>acc c. acc * 10 + (uint c - 48)) 0 ds"

text \<open>
  The Number value of an integer: the nearest double, ties to the even significand of 53
  bits, and an infinity from \<open>2 ^ 1024 - 2 ^ 970\<close> on, which would round to \<open>2 ^ 1024\<close>.
\<close>

definition round_significand :: "int \<Rightarrow> nat \<Rightarrow> int" where
  "round_significand a e =
     (let q = a div 2 ^ e;
          r = a mod 2 ^ e;
          half = 2 ^ (e - 1)
      in if r > half \<or> (r = half \<and> odd q) then q + 1 else q)"

definition number_of_int :: "int \<Rightarrow> jsnum" where
  "number_of_int n =
     (let a = \<bar>n\<bar>; e = bitlen a - 53
      in if e \<le> 0 then Fin (of_int n)
         else
           (let m = round_significand a (nat e) * 2 ^ nat e
            in if m \<ge> 2 ^ 1024 then (if n < 0 then NegInf else PosInf)
               else Fin (of_int (if n < 0 then - m else m))))"

text \<open>
  \<open>Number.parseInt(s, 10)\<close>: leading white space is skipped, a sign is read, the longest
  run of digits is taken; NaN when there is none, else the Number value of the integer.
\<close>

definition parseInt10 :: "jsstring \<Rightarrow> jsnum" where
  "parseInt10 s =
     (let s1 = dropWhile isTrimChar s;
          neg = (s1 \<noteq> [] \<and> hd s1 = 0x2D);
          s2 = (if s1 \<noteq> [] \<and> (hd s1 = 0x2D \<or> hd s1 = 0x2B) then tl s1 else s1);
          z = takeWhile isDigit s2
      in if z = [] then NaN
         else number_of_int (if neg then - digitsValue z else digitsValue z))"

text \<open>
  \<open>parseChatFontSize\<close>. \<open>Math.round\<close> of a finite \<open>x\<close> is \<open>\<lfloor>x + 1/2\<rfloor>\<close> (ties go up);
  the result is \<open>None\<close> for \<open>null\<close>.
\<close>

definition parseChatFontSize :: "jsvalue \<Rightarrow> int option" where
  "parseChatFontSize v =
     (if v = JSNull \<or> v = JSUndefined then None
      else
        (let numericValue =
               (case v of
                  JSNumber n \<Rightarrow> n
                | JSString s \<Rightarrow>
                    (let trimmedValue = trim s
                     in if length trimmedValue = 0 then NaN
                        else if \<not> testInteger trimmedValue then NaN
                        else parseInt10 trimmedValue)
                | _ \<Rightarrow> NaN)
         in case numericValue of
              Fin x \<Rightarrow> Some (min CHAT_FONT_SIZE_MAX (max CHAT_FONT_SIZE_MIN \<lfloor>x + 1 / 2\<rfloor>))
            | _ \<Rightarrow> None))"

text \<open>The integer an optionally minus-signed run of digits denotes.\<close>

definition integerOf :: "jsstring \<Rightarrow> int" where
  "integerOf t = (case t of [] \<Rightarrow> 0 | c # cs \<Rightarrow> if c = 0x2D then - digitsValue cs else digitsValue t)"

text \<open>A run of 310 nines: the integer \<open>10 ^ 310 - 1\<close>.\<close>

definition nines :: jsstring where
  "nines = replicate 310 0x39"


text \<open>An attached image.\<close>

definition one_image :: attached_image where
  "one_image = \<lparr>img_id = js ''a'', img_data = js ''AAAA'', img_mimeType = js ''image/png''\<rparr>"

section \<open>Submit: enablement and clearing\<close>

text \<open>
  C2. While nothing is being sent, the send button is disabled exactly when the
  conjunction "(trimmed text non-empty or an image attached) and session ready and no
  restoration in progress" fails; and \<open>handleSendOrStop\<close>, when nothing is being sent,
  makes no call at all on empty trimmed text and zero images.
\<close>

theorem submit_enabled_iff:
  "(\<not> isButtonDisabled False inputVal images isSessionReady isRestoringSession \<longleftrightarrow>
      (trim inputVal \<noteq> [] \<or> length images \<ge> 1) \<and> isSessionReady \<and> \<not> isRestoringSession)
   \<and> (isButtonDisabled False inputVal images isSessionReady isRestoringSession \<longleftrightarrow>
      \<not> ((trim inputVal \<noteq> [] \<or> length images \<ge> 1) \<and> isSessionReady \<and> \<not> isRestoringSession))
   \<and> (trim inputVal = [] \<and> images = [] \<longrightarrow>
        (handleSendOrStop False inputVal images :: 'n effect list) = [])"
  by (cases images) (auto simp: isButtonDisabled_def handleSendOrStop_def)

theorem submit_enabled_iff_witness:
  "trim (js '' '') = [] \<and> isButtonDisabled False (js '' '') [] True False
   \<and> \<not> isButtonDisabled False (js '' hi  '') [] True False
   \<and> (handleSendOrStop False (js '' '') [] :: unit effect list) = []"
  using submit_enabled_iff [of "js '' ''" "[]" True False, where ?'n = unit]
    submit_enabled_iff [of "js '' hi  ''" "[]" True False, where ?'n = unit]
  by (simp add: trim_def js_def isTrimChar_def)

text \<open>
  C3. On a submit that goes through (nothing is being sent; the trimmed text is non-empty
  or an image is attached) the call of \<open>onSendMessage\<close> is the last call the handler
  makes; after the calls before it the text held by the host is empty and so is the list
  of attached images, and no send has happened yet; \<open>onSendMessage\<close> is given the
  trimmed text and the images as they were before the clearing, each as the image prompt
  content \<open>{ type: "image", data, mimeType }\<close> with the data and the MIME type of the
  attached image, in the same order (or \<open>undefined\<close> when there are none).
\<close>

theorem submit_clears_before_send:
  fixes s :: chat_state
  assumes "trim (inputValue s) \<noteq> [] \<or> attachedImages s \<noteq> []"
    and "effs = (handleSendOrStop False (inputValue s) (attachedImages s) :: 'n effect list)"
    and "imgs = (if attachedImages s = [] then None
                 else Some (map (\<lambda>img. \<lparr>ip_type = js ''image'', ip_data = img_data img,
                                          ip_mimeType = img_mimeType img\<rparr>) (attachedImages s)))"
  shows "effs \<noteq> [] \<and> last effs = OnSendMessage (trim (inputValue s)) imgs
         \<and> inputValue (run (butlast effs) s) = [] \<and> attachedImages (run (butlast effs) s) = []
         \<and> sent (run (butlast effs) s) = sent s
         \<and> sent (run effs s) = sent s @ [(trim (inputValue s), imgs)]"
proof -
  have "toImagePrompt = (\<lambda>img. \<lparr>ip_type = js ''image'', ip_data = img_data img,
                                 ip_mimeType = img_mimeType img\<rparr>)"
    by (rule ext) (simp add: toImagePrompt_def)
  then have "effs = [OnInputChange [], OnAttachedImagesChange [], SetHintText None, SetCommandText [],
                OnSendMessage (trim (inputValue s)) imgs]"
    using assms by (auto simp: handleSendOrStop_def Let_def)
  then show ?thesis by (simp add: run_def)
qed

theorem submit_clears_before_send_witness:
  "trim (js '' hi '') \<noteq> [] \<and>
   last (handleSendOrStop False (js '' hi '') [one_image] :: unit effect list) =
     OnSendMessage (js ''hi'')
       (Some [\<lparr>ip_type = js ''image'', ip_data = js ''AAAA'', ip_mimeType = js ''image/png''\<rparr>]) \<and>
   inputValue (run (butlast (handleSendOrStop False (js '' hi '') [one_image] :: unit effect list))
                 (s0\<lparr>inputValue := js '' hi '', attachedImages := [one_image]\<rparr>)) = [] \<and>
   attachedImages (run (butlast (handleSendOrStop False (js '' hi '') [one_image] :: unit effect list))
                 (s0\<lparr>inputValue := js '' hi '', attachedImages := [one_image]\<rparr>)) = [] \<and>
   sent (run (handleSendOrStop False (js '' hi '') [one_image] :: unit effect list)
                 (s0\<lparr>inputValue := js '' hi '', attachedImages := [one_image]\<rparr>)) =
     [(js ''hi'',
       Some [\<lparr>ip_type = js ''image'', ip_data = js ''AAAA'', ip_mimeType = js ''image/png''\<rparr>])]"
  using submit_clears_before_send
    [of "s0\<lparr>inputValue := js '' hi '', attachedImages := [one_image]\<rparr>" _
        "Some [\<lparr>ip_type = js ''image'', ip_data = js ''AAAA'', ip_mimeType = js ''image/png''\<rparr>]",
     where ?'n = unit, OF _ refl]
  by (simp add: trim_def js_def isTrimChar_def s0_def one_image_def)

text \<open>
  C8. When the agent identifier differs from that of the previous render, the effect
  empties the list of attached images and leaves the input text as it was.
\<close>

theorem agent_switch_clears_images:
  assumes "fst prevDeps \<noteq> agentId"
  shows "attachedImages (run (agentIdEffect (Some prevDeps) (agentId, cb) :: 'n effect list) s) = []
       \<and> inputValue (run (agentIdEffect (Some prevDeps) (agentId, cb) :: 'n effect list) s) = inputValue s"
  using assms by (simp add: agentIdEffect_def run_def)

theorem agent_switch_clears_images_witness:
  "fst (js ''claude'', 0::nat) \<noteq> js ''gemini'' \<and>
   attachedImages (run (agentIdEffect (Some (js ''claude'', 0)) (js ''gemini'', 0) :: unit effect list)
     (s0\<lparr>inputValue := js ''draft'',
         attachedImages := [\<lparr>img_id = js ''a'', img_data = js ''AAAA'', img_mimeType = js ''image/png''\<rparr>]\<rparr>)) = [] \<and>
   inputValue (run (agentIdEffect (Some (js ''claude'', 0)) (js ''gemini'', 0) :: unit effect list)
     (s0\<lparr>inputValue := js ''draft'',
         attachedImages := [\<lparr>img_id = js ''a'', img_data = js ''AAAA'', img_mimeType = js ''image/png''\<rparr>]\<rparr>)) = js ''draft''"
  using agent_switch_clears_images [of "(js ''claude'', 0)" "js ''gemini''" 0
      "s0\<lparr>inputValue := js ''draft'',
         attachedImages := [\<lparr>img_id = js ''a'', img_data = js ''AAAA'', img_mimeType = js ''image/png''\<rparr>]\<rparr>",
      where ?'n = unit]
  by (simp add: js_def s0_def)

section \<open>Image attachments\<close>

lemma processLoop_attach:
  "(OnAttachedImagesChange imgs :: 'n effect) \<in> set (processLoop randomUUID attached k files) \<Longrightarrow>
   length attached < MAX_IMAGE_COUNT \<and>
   (\<exists>f\<in>set files. \<exists>i b. file_size f \<le> MAX_IMAGE_SIZE_BYTES \<and> readAsBase64 f = Some b \<and>
      imgs = attached @ [\<lparr>img_id = i, img_data = b, img_mimeType = file_type f\<rparr>])"
proof (induction files arbitrary: k)
  case Nil
  then show ?case by simp
next
  case (Cons f files)
  then show ?case
    by (auto simp: addImage_def split: if_splits option.splits)
qed

text \<open>
  C1. Whatever batches of files are pasted or dropped, from whatever renders, the list of
  attached images the host holds never has more than 10 images, and each image in it was
  made from an offered file of at most 5 MiB (5 * 1024 * 1024 bytes), measured before
  the encoding: the image carries that file's base64 text and MIME type.
\<close>

theorem attached_images_bounded:
  assumes "imgs \<in> stored_images F"
  shows "length imgs \<le> 10 \<and>
         (\<forall>img\<in>set imgs. \<exists>f\<in>F. readAsBase64 f = Some (img_data img) \<and> file_type f = img_mimeType img
             \<and> file_size f \<le> 5 * 1024 * 1024)"
  using assms
proof (induction rule: stored_images.induct)
  case initial
  then show ?case by simp
next
  case (attach attached files imgs randomUUID)
  note step = processLoop_attach [OF attach.hyps(3) [unfolded processImageFiles_def]]
  from step have short: "length attached < MAX_IMAGE_COUNT" by simp
  from step obtain f i b where f: "f \<in> set files" "file_size f \<le> MAX_IMAGE_SIZE_BYTES"
    "readAsBase64 f = Some b"
    "imgs = attached @ [\<lparr>img_id = i, img_data = b, img_mimeType = file_type f\<rparr>]"
    by blast
  have "f \<in> F" using f(1) attach.hyps(2) by blast
  moreover have "file_size f \<le> 5 * 1024 * 1024"
    using f(2) by (simp add: MAX_IMAGE_SIZE_BYTES_def MAX_IMAGE_SIZE_MB_def)
  ultimately have new: "\<exists>g\<in>F. readAsBase64 g = Some b \<and> file_type g = file_type f
        \<and> file_size g \<le> 5 * 1024 * 1024"
    using f(3) by blast
  have "length imgs \<le> 10"
    using short f(4) by (simp add: MAX_IMAGE_COUNT_def)
  moreover have "\<exists>g\<in>F. readAsBase64 g = Some (img_data img) \<and> file_type g = img_mimeType img
             \<and> file_size g \<le> 5 * 1024 * 1024" if "img \<in> set imgs" for img
  proof (cases "img \<in> set attached")
    case True
    with attach.IH show ?thesis by blast
  next
    case False
    with that f(4) have "img = \<lparr>img_id = i, img_data = b, img_mimeType = file_type f\<rparr>" by simp
    with new show ?thesis by simp
  qed
  ultimately show ?case by blast
next
  case (remove attached imgs i)
  then have "imgs = filter (\<lambda>img. img_id img \<noteq> i) attached"
    by (simp add: removeImage_def)
  with remove.IH show ?case
    by (auto intro: le_trans [OF length_filter_le])
qed

lemma stored_png2: "[\<lparr>img_id = uuids 0, img_data = js ''iVBORw0KGgo='', img_mimeType = js ''image/png''\<rparr>]
     \<in> stored_images {png2, jpeg7}"
proof (rule stored_images.attach [where attached = "[]" and files = "[png2, jpeg7]" and randomUUID = uuids])
  show "[] \<in> stored_images {png2, jpeg7}" by (rule stored_images.initial)
  show "set [png2, jpeg7] \<subseteq> {png2, jpeg7}" by simp
  show "OnAttachedImagesChange [\<lparr>img_id = uuids 0, img_data = js ''iVBORw0KGgo='', img_mimeType = js ''image/png''\<rparr>]
    \<in> set (processImageFiles uuids [] [png2, jpeg7])"
    by (simp add: processImageFiles_def png2_def jpeg7_def addImage_def MAX_IMAGE_COUNT_def
        MAX_IMAGE_SIZE_BYTES_def MAX_IMAGE_SIZE_MB_def)
qed

theorem attached_images_bounded_witness:
  "[\<lparr>img_id = uuids 0, img_data = js ''iVBORw0KGgo='', img_mimeType = js ''image/png''\<rparr>]
     \<in> stored_images {png2, jpeg7} \<and>
   length [\<lparr>img_id = uuids 0, img_data = js ''iVBORw0KGgo='', img_mimeType = js ''image/png''\<rparr>] \<le> 10 \<and>
   (\<exists>f\<in>{png2, jpeg7}. readAsBase64 f = Some (js ''iVBORw0KGgo='') \<and> file_type f = js ''image/png''
       \<and> file_size f \<le> 5 * 1024 * 1024)"
  using attached_images_bounded [OF stored_png2] stored_png2
  by simp

lemma processLoop_append:
  "length attached + k + length (filter attachable pre) < MAX_IMAGE_COUNT \<Longrightarrow>
   (processLoop randomUUID attached k (pre @ rest) :: 'n effect list) =
     processLoop randomUUID attached k pre
     @ processLoop randomUUID attached (k + length (filter attachable pre)) rest"
proof (induction pre arbitrary: k)
  case Nil
  then show ?case by simp
next
  case (Cons f pre)
  show ?case
  proof (cases "attachable f")
    case True
    then obtain b where b: "readAsBase64 f = Some b" and sz: "\<not> file_size f > MAX_IMAGE_SIZE_BYTES"
      by (auto simp: attachable_def)
    from Cons.prems True have "length attached + (k + 1) + length (filter attachable pre) < MAX_IMAGE_COUNT"
      by simp
    from Cons.IH [OF this] Cons.prems True b sz show ?thesis by simp
  next
    case False
    with Cons.prems have "length attached + k + length (filter attachable pre) < MAX_IMAGE_COUNT"
      by simp
    from Cons.IH [OF this] Cons.prems False show ?thesis
      by (auto simp: attachable_def split: option.splits)
  qed
qed

text \<open>
  C5, as stated, fails when the count cap stops the batch first: with ten images attached
  a 7 MB JPEG gets the notice of the count cap and no size-limit notice.
\<close>

theorem oversize_file_counterexample:
  "file_size jpeg7 > MAX_IMAGE_SIZE_BYTES \<and>
   (processImageFiles uuids ten_images [jpeg7] :: unit effect list) = [ShowNotice MaxImagesNotice]"
  by (simp add: processImageFiles_def jpeg7_def ten_images_def MAX_IMAGE_COUNT_def
      MAX_IMAGE_SIZE_BYTES_def MAX_IMAGE_SIZE_MB_def)

text \<open>
  C5, amended. Within one batch, a file over the byte cap that the loop reaches before the
  count cap stops the batch gets exactly one size-limit notice and is not attached, and
  the loop goes on with the files after it, the counter unchanged. A batch of one 2 MB PNG
  and one 7 MB JPEG, with nothing attached before, gives an attachment list of exactly
  the PNG and one size-limit notice.
\<close>

theorem oversize_file_rejected:
  "(file_size f > MAX_IMAGE_SIZE_BYTES \<and>
    length attached + length (filter attachable pre) < MAX_IMAGE_COUNT \<longrightarrow>
      (processImageFiles randomUUID attached (pre @ f # post) :: 'n effect list) =
        processImageFiles randomUUID attached pre
        @ ShowNotice ImageTooLargeNotice
        # processLoop randomUUID attached (length (filter attachable pre)) post)
   \<and> (processImageFiles randomUUID [] [png2, jpeg7] :: 'n effect list) =
        [OnAttachedImagesChange
           [\<lparr>img_id = randomUUID 0, img_data = the (readAsBase64 png2), img_mimeType = file_type png2\<rparr>],
         ShowNotice ImageTooLargeNotice]"
proof (intro conjI impI)
  assume a: "file_size f > MAX_IMAGE_SIZE_BYTES \<and>
    length attached + length (filter attachable pre) < MAX_IMAGE_COUNT"
  then have "length attached + 0 + length (filter attachable pre) < MAX_IMAGE_COUNT" by simp
  from processLoop_append [OF this, of randomUUID "f # post"] a
  show "(processImageFiles randomUUID attached (pre @ f # post) :: 'n effect list) =
        processImageFiles randomUUID attached pre
        @ ShowNotice ImageTooLargeNotice
        # processLoop randomUUID attached (length (filter attachable pre)) post"
    by (simp add: processImageFiles_def)
next
  show "(processImageFiles randomUUID [] [png2, jpeg7] :: 'n effect list) =
        [OnAttachedImagesChange
           [\<lparr>img_id = randomUUID 0, img_data = the (readAsBase64 png2), img_mimeType = file_type png2\<rparr>],
         ShowNotice ImageTooLargeNotice]"
    by (simp add: processImageFiles_def png2_def jpeg7_def addImage_def MAX_IMAGE_COUNT_def
        MAX_IMAGE_SIZE_BYTES_def MAX_IMAGE_SIZE_MB_def)
qed

theorem oversize_file_rejected_witness:
  "file_size jpeg7 > MAX_IMAGE_SIZE_BYTES \<and>
   length ([] :: attached_image list) + length (filter attachable [jpeg7]) < MAX_IMAGE_COUNT \<and>
   (processImageFiles uuids [] ([jpeg7] @ jpeg7 # [png2]) :: unit effect list) =
     [ShowNotice ImageTooLargeNotice, ShowNotice ImageTooLargeNotice,
      OnAttachedImagesChange
        [\<lparr>img_id = uuids 0, img_data = js ''iVBORw0KGgo='', img_mimeType = js ''image/png''\<rparr>]] \<and>
   attachedImages (run (processImageFiles uuids [] [png2, jpeg7] :: unit effect list) s0) =
     [\<lparr>img_id = uuids 0, img_data = js ''iVBORw0KGgo='', img_mimeType = js ''image/png''\<rparr>] \<and>
   notices (run (processImageFiles uuids [] [png2, jpeg7] :: unit effect list) s0) = [ImageTooLargeNotice]"
  using oversize_file_rejected [where f = jpeg7 and attached = "[]" and pre = "[jpeg7]"
      and randomUUID = uuids and post = "[png2]" and ?'n = unit]
  by (simp add: processImageFiles_def png2_def jpeg7_def addImage_def MAX_IMAGE_COUNT_def
      MAX_IMAGE_SIZE_BYTES_def MAX_IMAGE_SIZE_MB_def attachable_def run_def s0_def)

text \<open>
  C4. When the agent does not support images, a paste carrying at least one clipboard
  item of a whitelisted type that has a file, and a drop carrying at least one file of a
  whitelisted type, attach nothing, show exactly one "not supported" notice, whatever the
  number and the sizes of the files, and prevent the default handling of the event.
\<close>

theorem unsupported_agent_rejects_images:
  fixes s :: chat_state
  assumes "pasteEffs = (handlePaste False randomUUID attached (Some items) :: 'n effect list)"
    and "dropEffs = (handleDrop False randomUUID attached (Some files) :: 'n effect list)"
  shows
  "((\<exists>item\<in>set items. item_type item \<in> set SUPPORTED_IMAGE_TYPES \<and> getAsFile item \<noteq> None) \<longrightarrow>
      pasteEffs = [PreventDefault, ShowNotice NotSupportedNotice]
      \<and> attachedImages (run pasteEffs s) = attachedImages s
      \<and> notices (run pasteEffs s) = notices s @ [NotSupportedNotice]
      \<and> defaultPrevented (run pasteEffs s))
   \<and> ((\<exists>fl\<in>set files. file_type fl \<in> set SUPPORTED_IMAGE_TYPES) \<longrightarrow>
      dropEffs = [SetDragCounter 0, SetIsDraggingOver False, PreventDefault, ShowNotice NotSupportedNotice]
      \<and> attachedImages (run dropEffs s) = attachedImages s
      \<and> notices (run dropEffs s) = notices s @ [NotSupportedNotice]
      \<and> defaultPrevented (run dropEffs s))"
proof -
  have p: "pasteEffs = [PreventDefault, ShowNotice NotSupportedNotice]"
    if "\<exists>item\<in>set items. item_type item \<in> set SUPPORTED_IMAGE_TYPES \<and> getAsFile item \<noteq> None"
  proof -
    from that obtain item fl where "item \<in> set items" "item_type item \<in> set SUPPORTED_IMAGE_TYPES"
      "getAsFile item = Some fl" by blast
    then have "concat (map (\<lambda>item.
                   if item_type item \<in> set SUPPORTED_IMAGE_TYPES
                   then (case getAsFile item of Some fl \<Rightarrow> [fl] | None \<Rightarrow> [])
                   else []) items) \<noteq> []"
      by (induction items) (auto split: option.splits)
    then show ?thesis
      by (simp add: assms(1) handlePaste_def Let_def)
  qed
  have d: "dropEffs = [SetDragCounter 0, SetIsDraggingOver False, PreventDefault, ShowNotice NotSupportedNotice]"
    if "\<exists>fl\<in>set files. file_type fl \<in> set SUPPORTED_IMAGE_TYPES"
  proof -
    from that have "filter (\<lambda>fl. file_type fl \<in> set SUPPORTED_IMAGE_TYPES) files \<noteq> []" "files \<noteq> []"
      by (auto simp: filter_empty_conv)
    then show ?thesis
      by (simp add: assms(2) handleDrop_def Let_def)
  qed
  show ?thesis
  proof (intro conjI impI)
    assume h: "\<exists>item\<in>set items. item_type item \<in> set SUPPORTED_IMAGE_TYPES \<and> getAsFile item \<noteq> None"
    show "pasteEffs = [PreventDefault, ShowNotice NotSupportedNotice]" by (rule p [OF h])
    show "attachedImages (run pasteEffs s) = attachedImages s" by (simp add: p [OF h] run_def)
    show "notices (run pasteEffs s) = notices s @ [NotSupportedNotice]" by (simp add: p [OF h] run_def)
    show "defaultPrevented (run pasteEffs s)" by (simp add: p [OF h] run_def)
  next
    assume h: "\<exists>fl\<in>set files. file_type fl \<in> set SUPPORTED_IMAGE_TYPES"
    show "dropEffs = [SetDragCounter 0, SetIsDraggingOver False, PreventDefault, ShowNotice NotSupportedNotice]"
      by (rule d [OF h])
    show "attachedImages (run dropEffs s) = attachedImages s" by (simp add: d [OF h] run_def)
    show "notices (run dropEffs s) = notices s @ [NotSupportedNotice]" by (simp add: d [OF h] run_def)
    show "defaultPrevented (run dropEffs s)" by (simp add: d [OF h] run_def)
  qed
qed

theorem unsupported_agent_rejects_images_witness:
  "item_type png_item \<in> set SUPPORTED_IMAGE_TYPES \<and> getAsFile png_item \<noteq> None \<and>
   file_type jpeg7 \<in> set SUPPORTED_IMAGE_TYPES \<and>
   (handlePaste False uuids [] (Some [png_item, png_item]) :: unit effect list) =
      [PreventDefault, ShowNotice NotSupportedNotice] \<and>
   (handleDrop False uuids [] (Some [png2, jpeg7]) :: unit effect list) =
      [SetDragCounter 0, SetIsDraggingOver False, PreventDefault, ShowNotice NotSupportedNotice] \<and>
   attachedImages (run (handleDrop False uuids [] (Some [png2, jpeg7]) :: unit effect list) s0) = [] \<and>
   notices (run (handleDrop False uuids [] (Some [png2, jpeg7]) :: unit effect list) s0) = [NotSupportedNotice] \<and>
   defaultPrevented (run (handleDrop False uuids [] (Some [png2, jpeg7]) :: unit effect list) s0)"
  using unsupported_agent_rejects_images [OF refl refl, where items = "[png_item, png_item]"
      and files = "[png2, jpeg7]" and randomUUID = uuids and attached = "[]" and s = s0 and ?'n = unit]
  by (simp add: png_item_def png2_def jpeg7_def SUPPORTED_IMAGE_TYPES_def js_def run_def s0_def)

section \<open>Suggestion dropdowns\<close>

subsection \<open>Keys in an open dropdown\<close>

lemma run_select_slash:
  "inputValue (run (PreventDefault # handleSelectSlashCommand slashText t c :: 'n effect list) s) = slashText t c"
  "\<not> slashOpen (run (PreventDefault # handleSelectSlashCommand slashText t c :: 'n effect list) s)"
  "mentionOpen (run (PreventDefault # handleSelectSlashCommand slashText t c :: 'n effect list) s) = mentionOpen s"
  "SlashSelectSuggestion t c \<in> set (handleSelectSlashCommand slashText t c :: 'n effect list)"
  by (simp_all add: handleSelectSlashCommand_def Let_def run_def split: option.splits)

lemma run_select_mention:
  "inputValue (run (PreventDefault # selectMention mentionText t n) s) = mentionText t n"
  "\<not> mentionOpen (run (PreventDefault # selectMention mentionText t n) s)"
  "slashOpen (run (PreventDefault # selectMention mentionText t n) s) = slashOpen s"
  "MentionSelectSuggestion t n \<in> set (selectMention mentionText t n)"
  by (simp_all add: selectMention_def Let_def run_def)

lemma key_apply_slash:
  assumes "isOpen slashCommands" and "ev_key e = Tab \<or> (ev_key e = Enter \<and> \<not> ev_isComposing e)"
  shows "handleDropdownKeyPress slashText mentionText t slashCommands mentions e =
     (True, PreventDefault #
        (if 0 \<le> selectedIndex slashCommands \<and>
            selectedIndex slashCommands < int (length (suggestions slashCommands))
         then handleSelectSlashCommand slashText t
                (suggestions slashCommands ! nat (selectedIndex slashCommands))
         else []))"
  using assms by (auto simp: handleDropdownKeyPress_def Let_def js_index_def)

lemma key_apply_mention:
  assumes "\<not> isOpen slashCommands" and "isOpen mentions"
    and "ev_key e = Tab \<or> (ev_key e = Enter \<and> \<not> ev_isComposing e)"
  shows "handleDropdownKeyPress slashText mentionText t slashCommands mentions e =
     (True, PreventDefault #
        (if 0 \<le> selectedIndex mentions \<and> selectedIndex mentions < int (length (suggestions mentions))
         then selectMention mentionText t (suggestions mentions ! nat (selectedIndex mentions))
         else []))"
  using assms by (auto simp: handleDropdownKeyPress_def Let_def js_index_def)

lemma key_other:
  assumes "isOpen slashCommands \<or> isOpen mentions"
  shows "ev_key e = ArrowDown \<Longrightarrow>
           handleDropdownKeyPress slashText mentionText t slashCommands mentions e =
             (True, [PreventDefault, if isOpen slashCommands then SlashNavigate Down else MentionNavigate Down])"
    and "ev_key e = ArrowUp \<Longrightarrow>
           handleDropdownKeyPress slashText mentionText t slashCommands mentions e =
             (True, [PreventDefault, if isOpen slashCommands then SlashNavigate Up else MentionNavigate Up])"
    and "ev_key e = Escape \<Longrightarrow>
           handleDropdownKeyPress slashText mentionText t slashCommands mentions e =
             (True, [PreventDefault, if isOpen slashCommands then SlashClose else MentionClose])"
    and "ev_key e = Enter \<and> ev_isComposing e \<Longrightarrow>
           handleDropdownKeyPress slashText mentionText t slashCommands mentions e = (False, [])"
  using assms by (auto simp: handleDropdownKeyPress_def Let_def)

text \<open>
  C6, as stated, fails when no suggestion is highlighted: with the slash-command dropdown
  open on an empty list, Tab is handled, nothing is applied and the dropdown stays open.
\<close>

theorem nothing_highlighted_counterexample:
  "isOpen nothing_highlighted \<and> slashOpen slash_only \<and>
   handleDropdownKeyPress slashText0 mentionText0 (inputValue slash_only) nothing_highlighted
     closed_mentions tab_key = (True, [PreventDefault]) \<and>
   inputValue (run (snd (handleDropdownKeyPress slashText0 mentionText0 (inputValue slash_only)
     nothing_highlighted closed_mentions tab_key)) slash_only) = inputValue slash_only \<and>
   slashOpen (run (snd (handleDropdownKeyPress slashText0 mentionText0 (inputValue slash_only)
     nothing_highlighted closed_mentions tab_key)) slash_only)"
  by (simp add: nothing_highlighted_def closed_mentions_def tab_key_def slash_only_def s0_def
      handleDropdownKeyPress_def js_index_def run_def)

text \<open>
  C6, amended. While a dropdown is open, the active one being the slash-command dropdown
  when it is open and the mention dropdown otherwise: Tab, and Enter outside input-method
  composition, are handled; when \<open>selectedIndex\<close> is an index of the suggestions of the
  active dropdown, the suggestion at that index is applied (the text becomes what the
  engine's \<open>selectSuggestion\<close> returns for it) and that dropdown is closed; when it is
  not, the key makes no other call than \<open>preventDefault\<close>, the text is unchanged and the
  dropdown stays open. Enter during composition is not handled and makes no call. Escape
  is handled, closes the active dropdown only and leaves the text as it was.
\<close>

theorem dropdown_keys:
  fixes s :: chat_state
  assumes "isOpen slashCommands \<or> isOpen mentions"
    and "slashOpen s = isOpen slashCommands" and "mentionOpen s = isOpen mentions"
    and "r = handleDropdownKeyPress slashText mentionText (inputValue s) slashCommands mentions e"
    and "s' = run (snd r) s"
    and "c = suggestions slashCommands ! nat (selectedIndex slashCommands)"
    and "m = suggestions mentions ! nat (selectedIndex mentions)"
  shows
    "(ev_key e = Tab \<or> (ev_key e = Enter \<and> \<not> ev_isComposing e) \<longrightarrow>
        fst r \<and> PreventDefault \<in> set (snd r)
        \<and> (isOpen slashCommands \<and> 0 \<le> selectedIndex slashCommands
             \<and> selectedIndex slashCommands < int (length (suggestions slashCommands)) \<longrightarrow>
              SlashSelectSuggestion (inputValue s) c \<in> set (snd r)
              \<and> inputValue s' = slashText (inputValue s) c
              \<and> \<not> slashOpen s' \<and> mentionOpen s' = mentionOpen s)
        \<and> (isOpen slashCommands \<and> \<not> (0 \<le> selectedIndex slashCommands
             \<and> selectedIndex slashCommands < int (length (suggestions slashCommands))) \<longrightarrow>
              snd r = [PreventDefault] \<and> inputValue s' = inputValue s
              \<and> slashOpen s' \<and> mentionOpen s' = mentionOpen s)
        \<and> (\<not> isOpen slashCommands \<and> 0 \<le> selectedIndex mentions
             \<and> selectedIndex mentions < int (length (suggestions mentions)) \<longrightarrow>
              MentionSelectSuggestion (inputValue s) m \<in> set (snd r)
              \<and> inputValue s' = mentionText (inputValue s) m
              \<and> \<not> mentionOpen s')
        \<and> (\<not> isOpen slashCommands \<and> \<not> (0 \<le> selectedIndex mentions
             \<and> selectedIndex mentions < int (length (suggestions mentions))) \<longrightarrow>
              snd r = [PreventDefault] \<and> inputValue s' = inputValue s \<and> mentionOpen s'))
   \<and> (ev_key e = Enter \<and> ev_isComposing e \<longrightarrow> r = (False, []) \<and> s' = s)
   \<and> (ev_key e = Escape \<longrightarrow>
        fst r \<and> PreventDefault \<in> set (snd r)
        \<and> inputValue s' = inputValue s
        \<and> (isOpen slashCommands \<longrightarrow> \<not> slashOpen s' \<and> mentionOpen s' = mentionOpen s)
        \<and> (\<not> isOpen slashCommands \<longrightarrow> \<not> mentionOpen s'))"
proof -
  have apply_keys: "fst r \<and> PreventDefault \<in> set (snd r)
        \<and> (isOpen slashCommands \<and> 0 \<le> selectedIndex slashCommands
             \<and> selectedIndex slashCommands < int (length (suggestions slashCommands)) \<longrightarrow>
              SlashSelectSuggestion (inputValue s) c \<in> set (snd r)
              \<and> inputValue s' = slashText (inputValue s) c
              \<and> \<not> slashOpen s' \<and> mentionOpen s' = mentionOpen s)
        \<and> (isOpen slashCommands \<and> \<not> (0 \<le> selectedIndex slashCommands
             \<and> selectedIndex slashCommands < int (length (suggestions slashCommands))) \<longrightarrow>
              snd r = [PreventDefault] \<and> inputValue s' = inputValue s
              \<and> slashOpen s' \<and> mentionOpen s' = mentionOpen s)
        \<and> (\<not> isOpen slashCommands \<and> 0 \<le> selectedIndex mentions
             \<and> selectedIndex mentions < int (length (suggestions mentions)) \<longrightarrow>
              MentionSelectSuggestion (inputValue s) m \<in> set (snd r)
              \<and> inputValue s' = mentionText (inputValue s) m
              \<and> \<not> mentionOpen s')
        \<and> (\<not> isOpen slashCommands \<and> \<not> (0 \<le> selectedIndex mentions
             \<and> selectedIndex mentions < int (length (suggestions mentions))) \<longrightarrow>
              snd r = [PreventDefault] \<and> inputValue s' = inputValue s \<and> mentionOpen s')"
    if k: "ev_key e = Tab \<or> (ev_key e = Enter \<and> \<not> ev_isComposing e)"
  proof (cases "isOpen slashCommands")
    case True
    note r = key_apply_slash [OF True k, of slashText mentionText "inputValue s" mentions, folded assms(4)]
    show ?thesis
    proof (cases "0 \<le> selectedIndex slashCommands
             \<and> selectedIndex slashCommands < int (length (suggestions slashCommands))")
      case hl: True
      then have "snd r = PreventDefault # handleSelectSlashCommand slashText (inputValue s) c"
        "fst r" by (simp_all add: r assms(6))
      then show ?thesis
        using True hl by (simp add: assms(5) run_select_slash)
    next
      case none: False
      then have "snd r = [PreventDefault]" "fst r" by (auto simp: r)
      then show ?thesis
        using True none assms(2) by (simp add: assms(5) run_def)
    qed
  next
    case False
    with assms(1) have mo: "isOpen mentions" by simp
    note r = key_apply_mention [OF False mo k, of slashText mentionText "inputValue s", folded assms(4)]
    show ?thesis
    proof (cases "0 \<le> selectedIndex mentions
             \<and> selectedIndex mentions < int (length (suggestions mentions))")
      case hl: True
      then have "snd r = PreventDefault # selectMention mentionText (inputValue s) m"
        "fst r" by (simp_all add: r assms(7))
      then show ?thesis
        using False hl by (simp add: assms(5) run_select_mention)
    next
      case none: False
      then have "snd r = [PreventDefault]" "fst r" by (auto simp: r)
      then show ?thesis
        using False none assms(3) mo by (simp add: assms(5) run_def)
    qed
  qed
  have composing: "r = (False, []) \<and> s' = s" if "ev_key e = Enter \<and> ev_isComposing e"
    using key_other(4) [OF assms(1) that, of slashText mentionText "inputValue s", folded assms(4)]
    by (simp add: assms(5) run_def)
  have escape: "fst r \<and> PreventDefault \<in> set (snd r)
        \<and> inputValue s' = inputValue s
        \<and> (isOpen slashCommands \<longrightarrow> \<not> slashOpen s' \<and> mentionOpen s' = mentionOpen s)
        \<and> (\<not> isOpen slashCommands \<longrightarrow> \<not> mentionOpen s')" if "ev_key e = Escape"
    using key_other(3) [OF assms(1) that, of slashText mentionText "inputValue s", folded assms(4)]
    by (simp add: assms(5) run_def)
  from apply_keys composing escape show ?thesis by blast
qed

theorem dropdown_keys_witness:
  "(isOpen second_highlighted \<or> isOpen open_mentions) \<and>
   slashOpen typing_slash = isOpen second_highlighted \<and> mentionOpen typing_slash = isOpen open_mentions \<and>
   0 \<le> selectedIndex second_highlighted \<and>
   selectedIndex second_highlighted < int (length (suggestions second_highlighted)) \<and>
   handleDropdownKeyPress slashText0 mentionText0 (inputValue typing_slash) second_highlighted
       open_mentions tab_composing =
     (True, [PreventDefault, SlashSelectSuggestion (js ''/he'') clear_command,
             OnInputChange (js ''/clear ''), SetHintText None, SetCommandText [], FocusCursorLater 7]) \<and>
   inputValue (run (snd (handleDropdownKeyPress slashText0 mentionText0 (inputValue typing_slash)
       second_highlighted open_mentions tab_composing)) typing_slash) = js ''/clear '' \<and>
   \<not> slashOpen (run (snd (handleDropdownKeyPress slashText0 mentionText0 (inputValue typing_slash)
       second_highlighted open_mentions tab_composing)) typing_slash) \<and>
   handleDropdownKeyPress slashText0 mentionText0 (inputValue typing_slash) second_highlighted
       open_mentions enter_composing = (False, []) \<and>
   inputValue (run (snd (handleDropdownKeyPress slashText0 mentionText0 (inputValue typing_slash)
       second_highlighted open_mentions escape_key)) typing_slash) = js ''/he'' \<and>
   \<not> slashOpen (run (snd (handleDropdownKeyPress slashText0 mentionText0 (inputValue typing_slash)
       second_highlighted open_mentions escape_key)) typing_slash) \<and>
   mentionOpen (run (snd (handleDropdownKeyPress slashText0 mentionText0 (inputValue typing_slash)
       second_highlighted open_mentions escape_key)) typing_slash) \<and>
   handleDropdownKeyPress slashText0 mentionText0 (inputValue mention_only) closed_slash
       third_note tab_key =
     (True, [PreventDefault, MentionSelectSuggestion (js ''see @'') 9,
             OnInputChange (js ''see @note''), FocusCursorLater 9]) \<and>
   \<not> mentionOpen (run (snd (handleDropdownKeyPress slashText0 mentionText0 (inputValue mention_only)
       closed_slash third_note tab_key)) mention_only)"
  using dropdown_keys [OF _ _ _ refl refl refl refl, where s = typing_slash and slashCommands = second_highlighted
      and mentions = open_mentions and slashText = slashText0 and mentionText = mentionText0
      and e = tab_composing]
    dropdown_keys [OF _ _ _ refl refl refl refl, where s = typing_slash and slashCommands = second_highlighted
      and mentions = open_mentions and slashText = slashText0 and mentionText = mentionText0
      and e = enter_composing]
    dropdown_keys [OF _ _ _ refl refl refl refl, where s = typing_slash and slashCommands = second_highlighted
      and mentions = open_mentions and slashText = slashText0 and mentionText = mentionText0
      and e = escape_key]
    dropdown_keys [OF _ _ _ refl refl refl refl, where s = mention_only and slashCommands = closed_slash
      and mentions = third_note and slashText = slashText0 and mentionText = mentionText0
      and e = tab_key]
  by (simp add: typing_slash_def mention_only_def s0_def second_highlighted_def open_mentions_def
      closed_slash_def third_note_def tab_composing_def tab_key_def
      enter_composing_def escape_key_def help_command_def clear_command_def slashText0_def
      mentionText0_def js_def js_index_def
      handleDropdownKeyPress_def handleSelectSlashCommand_def selectMention_def run_def)

subsection \<open>One dropdown at a time, slash commands first\<close>









section \<open>Instance labels\<close>

lemma getOr0_upd: "getOr0 (m(k \<mapsto> v)) l = (if l = k then v else getOr0 m l)"
  by (simp add: getOr0_def)

lemma getOr0_empty: "getOr0 Map.empty l = 0"
  by (simp add: getOr0_def)

lemma getOr0_countLoop:
  "getOr0 (countLoop cm es) l = getOr0 cm l + count_list (map label es) l"
  by (induction es arbitrary: cm) (auto simp: getOr0_upd)

lemma length_labelLoop: "length (labelLoop cm im es) = length es"
  by (induction es arbitrary: im) (auto simp: Let_def)

lemma labelLoop_nth:
  "i < length es \<Longrightarrow>
   labelLoop cm im es ! i =
     (if getOr0 cm (label (es ! i)) > 1 then
        \<lparr>viewId = viewId (es ! i),
         label = (let idx = getOr0 im (label (es ! i)) + count_list (take (Suc i) (map label es)) (label (es ! i))
                  in if idx = 1 then label (es ! i)
                     else label (es ! i) @ js '' '' @ numberToString idx)\<rparr>
      else es ! i)"
proof (induction es arbitrary: im i)
  case Nil
  then show ?case by simp
next
  case (Cons e es)
  show ?case
  proof (cases i)
    case 0
    then show ?thesis by (simp add: Let_def)
  next
    case (Suc j)
    with Cons.prems have j: "j < length es" by simp
    show ?thesis
    proof (cases "getOr0 cm (label e) > 1")
      case True
      have "labelLoop cm im (e # es) ! i = labelLoop cm (im(label e \<mapsto> getOr0 im (label e) + 1)) es ! j"
        using True Suc by (simp add: Let_def)
      also note Cons.IH [OF j, of "im(label e \<mapsto> getOr0 im (label e) + 1)"]
      finally show ?thesis
        using Suc by (simp add: getOr0_upd Let_def)
    next
      case False
      have "labelLoop cm im (e # es) ! i = labelLoop cm im es ! j"
        using False Suc by simp
      also note Cons.IH [OF j, of im]
      finally show ?thesis
        using Suc False by (auto simp: Let_def)
    qed
  qed
qed

lemma count_take_pos: "i < length xs \<Longrightarrow> count_list (take (Suc i) xs) (xs ! i) \<ge> 1"
  by (simp add: take_Suc_conv_app_nth)

lemma count_take_le: "count_list (take n xs) x \<le> count_list xs x"
proof -
  have "count_list xs x = count_list (take n xs) x + count_list (drop n xs) x"
    by (metis append_take_drop_id count_list_append)
  then show ?thesis by simp
qed

lemma numberToString_small: "n < 10 \<Longrightarrow> numberToString n = [of_nat (48 + n)]"
  by (simp add: numberToString.simps [of n])

lemma numberToString_large:
  "\<not> n < 10 \<Longrightarrow> numberToString n = numberToString (n div 10) @ [of_nat (48 + n mod 10)]"
  by (simp add: numberToString.simps [of n])

lemma uint_digit: "d < 10 \<Longrightarrow> uint (of_nat (48 + d) :: 16 word) = 48 + int d"
  by (simp add: uint_nat unat_of_nat del: of_nat_add)

lemma isDigit_digit: "d < 10 \<Longrightarrow> isDigit (of_nat (48 + d))"
  unfolding isDigit_def word_le_def by (simp add: uint_digit del: of_nat_add)

lemma digitsValue_snoc: "digitsValue (ds @ [c]) = digitsValue ds * 10 + (uint c - 48)"
  by (simp add: digitsValue_def)

lemma numberToString_nonempty: "numberToString n \<noteq> []"
  by (cases "n < 10") (simp_all add: numberToString_small numberToString_large)

lemma numberToString_decimal:
  "list_all isDigit (numberToString n) \<and> digitsValue (numberToString n) = int n
   \<and> (0 < n \<longrightarrow> hd (numberToString n) \<noteq> 0x30)"
proof (induction n rule: numberToString.induct)
  case (1 n)
  show ?case
  proof (cases "n < 10")
    case True
    have "uint (of_nat (48 + n) :: 16 word) = 48 + int n" using True by (rule uint_digit)
    moreover have "0 < n \<Longrightarrow> (of_nat (48 + n) :: 16 word) \<noteq> 0x30"
    proof
      assume "0 < n" "(of_nat (48 + n) :: 16 word) = 0x30"
      then have "uint (of_nat (48 + n) :: 16 word) = 48" by simp
      with uint_digit [OF True] \<open>0 < n\<close> show False by simp
    qed
    ultimately show ?thesis
      using True isDigit_digit [OF True]
      by (simp add: numberToString_small digitsValue_def del: of_nat_add)
  next
    case False
    have d: "n mod 10 < 10" by simp
    from False have pos: "0 < n div 10" by simp
    from 1 [OF False] pos have IH: "list_all isDigit (numberToString (n div 10))"
      "digitsValue (numberToString (n div 10)) = int (n div 10)"
      "hd (numberToString (n div 10)) \<noteq> 0x30" by simp_all
    have "digitsValue (numberToString n) = int (n div 10) * 10 + int (n mod 10)"
      by (simp add: numberToString_large [OF False] digitsValue_snoc IH(2) uint_digit [OF d] del: of_nat_add)
    also have "\<dots> = int n" by (simp add: zmod_int zdiv_int)
    finally have v: "digitsValue (numberToString n) = int n" .
    have "list_all isDigit (numberToString n)"
      using IH(1) isDigit_digit [OF d] by (simp add: numberToString_large [OF False] del: of_nat_add)
    moreover have "hd (numberToString n) \<noteq> 0x30"
      using IH(3) numberToString_nonempty [of "n div 10"]
      by (simp add: numberToString_large [OF False] del: of_nat_add)
    ultimately show ?thesis using v by simp
  qed
qed

text \<open>
  C7. The labels keep the order and the identifiers of the views. The label of the view at
  position \<open>i\<close> is its display name when this is the first view of that name up to
  \<open>i\<close>, and otherwise the name followed by a space and \<open>k\<close> in decimal, the number of
  views of that name up to and including \<open>i\<close>: the first occurrence is unsuffixed, the
  next ones are "Name 2", "Name 3", and so on, and a name that occurs once is unchanged.
  The decimal form is a run of digits of value \<open>k\<close> that does not begin with 0. Views
  named "Chat", "Chat", "Research" are labelled "Chat", "Chat 2", "Research", and three
  views named "Chat" are labelled "Chat", "Chat 2", "Chat 3".
\<close>

theorem instance_labels_disambiguate:
  "length (instanceLabels views) = length views
   \<and> (i < length views \<longrightarrow>
        viewId (instanceLabels views ! i) = view_viewId (views ! i)
        \<and> label (instanceLabels views ! i) =
            (let name = getDisplayName (views ! i);
                 k = count_list (take (Suc i) (map getDisplayName views)) name
             in if k = 1 then name else name @ js '' '' @ numberToString k))
   \<and> list_all isDigit (numberToString n) \<and> digitsValue (numberToString n) = int n
   \<and> (0 < n \<longrightarrow> hd (numberToString n) \<noteq> 0x30)
   \<and> numberToString 12 = js ''12''
   \<and> map label (instanceLabels chat_chat_research) = [js ''Chat'', js ''Chat 2'', js ''Research'']
   \<and> map label (instanceLabels three_chats) = [js ''Chat'', js ''Chat 2'', js ''Chat 3'']"
proof (intro conjI impI)
  let ?es = "map (\<lambda>v. \<lparr>viewId = view_viewId v, label = getDisplayName v\<rparr>) views"
  let ?cm = "countLoop Map.empty ?es"
  have il: "instanceLabels views = labelLoop ?cm Map.empty ?es"
    by (simp add: instanceLabels_def Let_def)
  have labels: "map label ?es = map getDisplayName views"
    by (simp add: comp_def)
  show "length (instanceLabels views) = length views"
    by (simp add: il length_labelLoop)
  assume i: "i < length views"
  then have i': "i < length ?es" by simp
  have ei: "?es ! i = \<lparr>viewId = view_viewId (views ! i), label = getDisplayName (views ! i)\<rparr>"
    using i by simp
  let ?name = "getDisplayName (views ! i)"
  let ?k = "count_list (take (Suc i) (map getDisplayName views)) ?name"
  have total: "getOr0 ?cm ?name = count_list (map getDisplayName views) ?name"
    by (simp only: getOr0_countLoop labels getOr0_empty add_0)
  have k1: "?k \<ge> 1"
    using count_take_pos [of i "map getDisplayName views"] i by simp
  have kle: "?k \<le> count_list (map getDisplayName views) ?name"
    by (rule count_take_le)
  have nth: "labelLoop ?cm Map.empty ?es ! i =
     (if count_list (map getDisplayName views) ?name > 1 then
        \<lparr>viewId = view_viewId (views ! i),
         label = (if ?k = 1 then ?name else ?name @ js '' '' @ numberToString ?k)\<rparr>
      else \<lparr>viewId = view_viewId (views ! i), label = ?name\<rparr>)"
    unfolding labelLoop_nth [OF i', of ?cm Map.empty] ei labels
    by (simp only: label_entry.simps total getOr0_empty Let_def) simp
  show "viewId (instanceLabels views ! i) = view_viewId (views ! i)"
    by (simp add: il nth)
  show "label (instanceLabels views ! i) =
     (let name = ?name; k = count_list (take (Suc i) (map getDisplayName views)) name
      in if k = 1 then name else name @ js '' '' @ numberToString k)"
    using k1 kle
    by (auto simp: il nth Let_def)
next
  show "list_all isDigit (numberToString n)" "digitsValue (numberToString n) = int n"
    using numberToString_decimal [of n] by simp_all
  show "hd (numberToString n) \<noteq> 0x30" if "0 < n"
    using numberToString_decimal [of n] that by simp
  show "numberToString 12 = js ''12''"
    by (simp add: numberToString.simps [of 12] numberToString.simps [of "Suc 0"] js_def)
  show "map label (instanceLabels three_chats) = [js ''Chat'', js ''Chat 2'', js ''Chat 3'']"
    by (simp add: instanceLabels_def three_chats_def Let_def getOr0_def js_def
        numberToString.simps [of "Suc (Suc 0)"] numberToString.simps [of "Suc (Suc (Suc 0))"])
  show "map label (instanceLabels chat_chat_research) = [js ''Chat'', js ''Chat 2'', js ''Research'']"
    by (simp add: instanceLabels_def chat_chat_research_def Let_def getOr0_def js_def
        numberToString.simps [of "Suc (Suc 0)"])
qed

theorem instance_labels_disambiguate_witness:
  "(2::nat) < length three_chats \<and>
   label (instanceLabels three_chats ! 2) = js ''Chat 3'' \<and>
   viewId (instanceLabels three_chats ! 2) = js ''v3'' \<and>
   (0::nat) < 3 \<and> numberToString 3 = js ''3''"
  using instance_labels_disambiguate [of three_chats 2 3]
  by (simp add: three_chats_def js_def numberToString.simps [of "Suc (Suc (Suc 0))"]
      numberToString.simps [of 3])

section \<open>Font size\<close>

subsection \<open>Rounding an integer to a double\<close>

lemma bitlen_window:
  fixes a :: int
  assumes "0 < bitlen a - 53" and "E = nat (bitlen a - 53)"
  shows "2 ^ (52 + E) \<le> a" and "a < 2 ^ (53 + E)" and "0 < E"
proof -
  have pos: "0 < a"
  proof (rule ccontr)
    assume "\<not> 0 < a"
    then have "bitlen a = 0" by (simp add: bitlen_eq_zero_iff)
    with assms(1) show False by simp
  qed
  from assms have e1: "nat (bitlen a - 1) = 52 + E" and e2: "nat (bitlen a) = 53 + E"
    by auto
  from bitlen_bounds [OF pos] show "2 ^ (52 + E) \<le> a" and "a < 2 ^ (53 + E)"
    by (simp_all add: e1 e2)
  from assms show "0 < E" by simp
qed

lemma div_bounds:
  fixes a b k :: int
  assumes "0 < b"
  shows "b * k \<le> a \<Longrightarrow> k \<le> a div b" and "a < b * k \<Longrightarrow> a div b < k"
proof -
  assume "b * k \<le> a"
  then have "(b * k) div b \<le> a div b" using assms by (rule zdiv_mono1)
  then show "k \<le> a div b" using assms by simp
next
  assume lt: "a < b * k"
  show "a div b < k"
  proof (rule ccontr)
    assume "\<not> a div b < k"
    then have "k \<le> a div b" by simp
    then have "b * k \<le> b * (a div b)" using assms by (simp add: mult_left_mono)
    also have "\<dots> \<le> a"
      using mult_div_mod_eq [of b a] pos_mod_sign [OF assms, of a] by linarith
    finally show False using lt by simp
  qed
qed

lemma round_window:
  fixes a :: int
  assumes w1: "2 ^ (52 + E) \<le> a" and w2: "a < 2 ^ (53 + E)"
  shows "2 ^ 52 \<le> a div 2 ^ E" and "a div 2 ^ E < 2 ^ 53"
proof -
  have b: "(0::int) < 2 ^ E" by simp
  from w1 have "(2::int) ^ E * 2 ^ 52 \<le> a" by (simp add: power_add mult.commute)
  then show "2 ^ 52 \<le> a div 2 ^ E" by (rule div_bounds(1) [OF b])
  from w2 have "a < (2::int) ^ E * 2 ^ 53" by (simp add: power_add mult.commute)
  then show "a div 2 ^ E < 2 ^ 53" by (rule div_bounds(2) [OF b])
qed

lemma round_significand_cases:
  "round_significand a E = a div 2 ^ E \<or> round_significand a E = a div 2 ^ E + 1"
  by (simp add: round_significand_def Let_def)

lemma round_large:
  fixes a :: int
  assumes w1: "2 ^ (52 + E) \<le> a" and w2: "a < 2 ^ (53 + E)" and E: "0 < E"
  shows "2 ^ 53 \<le> round_significand a E * 2 ^ E" and "2 ^ 53 \<le> a"
proof -
  from round_window [OF w1 w2] round_significand_cases [of a E]
  have "2 ^ 52 \<le> round_significand a E" by auto
  moreover have "(2::int) ^ 1 \<le> 2 ^ E" using E by (intro power_increasing) simp_all
  ultimately have "2 ^ 52 * 2 ^ 1 \<le> round_significand a E * (2::int) ^ E"
    by (intro mult_mono) simp_all
  then show "2 ^ 53 \<le> round_significand a E * 2 ^ E" by simp
  have "(2::int) ^ 53 \<le> 2 ^ (52 + E)" using E by (intro power_increasing) simp_all
  with w1 show "2 ^ 53 \<le> a" by simp
qed

lemma round_overflow:
  fixes a :: int
  assumes w1: "2 ^ (52 + E) \<le> a" and w2: "a < 2 ^ (53 + E)" and E: "0 < E"
  shows "2 ^ 1024 \<le> round_significand a E * 2 ^ E \<longleftrightarrow> 2 ^ 1024 - 2 ^ 970 \<le> a"
proof -
  note qw = round_window [OF w1 w2]
  define q' where "q' = round_significand a E"
  note q' = round_significand_cases [of a E, folded q'_def]
  consider "E \<ge> 972" | "E \<le> 970" | "E = 971" by linarith
  then show ?thesis unfolding q'_def [symmetric]
  proof cases
    case 1
    have "2 ^ 52 \<le> q'" using qw q' by auto
    moreover have "(2::int) ^ 972 \<le> 2 ^ E" using 1 by (intro power_increasing) simp_all
    ultimately have "2 ^ 52 * 2 ^ 972 \<le> q' * (2::int) ^ E"
      by (intro mult_mono) simp_all
    then have l: "2 ^ 1024 \<le> q' * 2 ^ E" by simp
    have "(2::int) ^ 1024 \<le> 2 ^ (52 + E)" using 1 by (intro power_increasing) simp_all
    with w1 have "2 ^ 1024 - 2 ^ 970 \<le> a" by simp
    with l show "2 ^ 1024 \<le> q' * 2 ^ E \<longleftrightarrow> 2 ^ 1024 - 2 ^ 970 \<le> a" by simp
  next
    case 2
    have "q' \<le> 2 ^ 53" using qw q' by auto
    moreover have "(2::int) ^ E \<le> 2 ^ 970" using 2 by (intro power_increasing) simp_all
    moreover have "0 \<le> q'" using qw q' by auto
    ultimately have "q' * (2::int) ^ E \<le> 2 ^ 53 * 2 ^ 970"
      by (intro mult_mono) simp_all
    then have l: "\<not> 2 ^ 1024 \<le> q' * 2 ^ E" by simp
    have "(2::int) ^ (53 + E) \<le> 2 ^ 1023" using 2 by (intro power_increasing) simp_all
    with w2 have "\<not> 2 ^ 1024 - 2 ^ 970 \<le> a" by simp
    with l show "2 ^ 1024 \<le> q' * 2 ^ E \<longleftrightarrow> 2 ^ 1024 - 2 ^ 970 \<le> a" by simp
  next
    case 3
    define q where "q = a div 2 ^ 971"
    define r where "r = a mod 2 ^ 971"
    have a: "a = 2 ^ 971 * q + r" by (simp add: q_def r_def)
    have r: "0 \<le> r" "r < 2 ^ 971" by (simp_all add: r_def)
    have q: "2 ^ 52 \<le> q" "q < 2 ^ 53" using qw 3 by (simp_all add: q_def)
    have q'': "q' = (if r > 2 ^ 970 \<or> (r = 2 ^ 970 \<and> odd q) then q + 1 else q)"
      using 3 by (simp add: q'_def round_significand_def Let_def q_def r_def)
    show "2 ^ 1024 \<le> q' * 2 ^ E \<longleftrightarrow> 2 ^ 1024 - 2 ^ 970 \<le> a"
    proof (cases "q = 2 ^ 53 - 1")
      case True
      then have "odd q" by simp
      then have "q' = (if r \<ge> 2 ^ 970 then 2 ^ 53 else 2 ^ 53 - 1)"
        using q'' True by auto
      then show ?thesis
        using a r True 3 by (auto split: if_splits)
    next
      case False
      with q have "q \<le> 2 ^ 53 - 2" by simp
      then have "q' \<le> 2 ^ 53 - 1" using q'' by (auto split: if_splits)
      then have "q' * 2 ^ 971 \<le> (2 ^ 53 - 1) * 2 ^ 971" by (intro mult_right_mono) simp_all
      then have l: "\<not> 2 ^ 1024 \<le> q' * 2 ^ E" using 3 by simp
      have "2 ^ 971 * q \<le> 2 ^ 971 * (2 ^ 53 - 2)" using \<open>q \<le> 2 ^ 53 - 2\<close> by (intro mult_left_mono) simp_all
      with a r have "\<not> 2 ^ 1024 - 2 ^ 970 \<le> a" by simp
      with l show ?thesis by simp
    qed
  qed
qed

lemma number_of_int_small:
  assumes "bitlen \<bar>n\<bar> - 53 \<le> 0"
  shows "number_of_int n = Fin (of_int n)" and "\<bar>n\<bar> < 2 ^ 53"
proof -
  show "number_of_int n = Fin (of_int n)"
    unfolding number_of_int_def Let_def using assms by (simp only: if_True)
  show "\<bar>n\<bar> < 2 ^ 53"
  proof (cases "\<bar>n\<bar> = 0")
    case False
    then have pos: "0 < \<bar>n\<bar>" by simp
    have "nat (bitlen \<bar>n\<bar>) \<le> 53" using assms by simp
    then have "(2::int) ^ nat (bitlen \<bar>n\<bar>) \<le> 2 ^ 53" by (intro power_increasing) simp_all
    with bitlen_bounds [OF pos] show ?thesis by linarith
  qed simp
qed

lemma number_of_int_large:
  assumes "\<not> bitlen \<bar>n\<bar> - 53 \<le> 0" and "m = round_significand \<bar>n\<bar> (nat (bitlen \<bar>n\<bar> - 53)) * 2 ^ nat (bitlen \<bar>n\<bar> - 53)"
  shows "number_of_int n = (if 2 ^ 1024 - 2 ^ 970 \<le> \<bar>n\<bar> then (if n < 0 then NegInf else PosInf)
               else Fin (of_int (if n < 0 then - m else m)))"
    and "2 ^ 53 \<le> m" and "2 ^ 53 \<le> \<bar>n\<bar>"
proof -
  define E where "E = nat (bitlen \<bar>n\<bar> - 53)"
  from assms(1) have pos: "0 < bitlen \<bar>n\<bar> - 53" by simp
  note w = bitlen_window [OF pos E_def]
  note ov = round_overflow [OF w, unfolded E_def, folded assms(2)]
  have "number_of_int n = (if m \<ge> 2 ^ 1024 then (if n < 0 then NegInf else PosInf)
               else Fin (of_int (if n < 0 then - m else m)))"
    unfolding number_of_int_def Let_def assms(2) using assms(1) by (simp only: if_False)
  then show "number_of_int n = (if 2 ^ 1024 - 2 ^ 970 \<le> \<bar>n\<bar> then (if n < 0 then NegInf else PosInf)
               else Fin (of_int (if n < 0 then - m else m)))"
    by (simp only: ov)
  from round_large [OF w] show "2 ^ 53 \<le> m" and "2 ^ 53 \<le> \<bar>n\<bar>"
    by (simp_all only: assms(2) E_def)
qed

lemma number_of_int_finite_iff:
  "(\<exists>x. number_of_int n = Fin x) \<longleftrightarrow> \<bar>n\<bar> < 2 ^ 1024 - 2 ^ 970"
proof (cases "bitlen \<bar>n\<bar> - 53 \<le> 0")
  case True
  from number_of_int_small [OF True] have "number_of_int n = Fin (of_int n)" "\<bar>n\<bar> < 2 ^ 1024 - 2 ^ 970"
    by simp_all
  then show ?thesis by simp
next
  case False
  from number_of_int_large(1) [OF False refl] show ?thesis
    by (cases "2 ^ 1024 - 2 ^ 970 \<le> \<bar>n\<bar>") (simp_all only: if_True if_False, auto)
qed

lemma floor_half: "\<lfloor>real_of_int k + 1 / 2\<rfloor> = k"
  by linarith

lemma number_of_int_clamp:
  assumes "number_of_int n = Fin x"
  shows "min 24 (max 10 \<lfloor>x + 1 / 2\<rfloor>) = min 24 (max 10 n)"
proof (cases "bitlen \<bar>n\<bar> - 53 \<le> 0")
  case True
  from number_of_int_small(1) [OF True] assms have "x = of_int n" by simp
  then show ?thesis by (simp only: floor_half)
next
  case False
  define m where "m = round_significand \<bar>n\<bar> (nat (bitlen \<bar>n\<bar> - 53)) * 2 ^ nat (bitlen \<bar>n\<bar> - 53)"
  note L = number_of_int_large [OF False m_def]
  from L(1) assms have x: "x = of_int (if n < 0 then - m else m)"
    by (cases "2 ^ 1024 - 2 ^ 970 \<le> \<bar>n\<bar>"; cases "n < 0") (simp_all only: if_True if_False, auto)
  show ?thesis
  proof (cases "n < 0")
    case True
    with x have "\<lfloor>x + 1 / 2\<rfloor> = - m" by (simp only: floor_half if_True)
    moreover have "- m \<le> 10" using L(2) by simp
    moreover have "n \<le> 10" using True by simp
    ultimately show ?thesis by simp
  next
    case False
    with x have "\<lfloor>x + 1 / 2\<rfloor> = m" by (simp only: floor_half if_False)
    moreover have "24 \<le> m" using L(2) by simp
    moreover have "24 \<le> n" using False L(3) by simp
    ultimately show ?thesis by simp
  qed
qed

subsection \<open>parseInt on what the regular expression lets through\<close>

lemma digit_not_trim: "isDigit c \<Longrightarrow> \<not> isTrimChar c"
  by (auto simp: isDigit_def isTrimChar_def)

lemma digit_not_sign: "isDigit c \<Longrightarrow> c \<noteq> 0x2D \<and> c \<noteq> 0x2B"
  by (auto simp: isDigit_def)

lemma minus_not_trim: "\<not> isTrimChar 0x2D"
  by (simp add: isTrimChar_def)

lemma takeWhile_digits: "list_all isDigit cs \<Longrightarrow> takeWhile isDigit cs = cs"
  by (simp add: list_all_iff)

lemma parseInt10_integer:
  assumes "testInteger t"
  shows "parseInt10 t = number_of_int (integerOf t)"
proof (cases t)
  case Nil
  with assms show ?thesis by (simp add: testInteger_def)
next
  case (Cons c cs)
  show ?thesis
  proof (cases "c = 0x2D")
    case True
    with assms Cons have cs: "cs \<noteq> []" "list_all isDigit cs"
      by (simp_all add: testInteger_def)
    have dw: "dropWhile isTrimChar (0x2D # cs) = 0x2D # cs"
      using minus_not_trim by simp
    have tw: "takeWhile isDigit cs = cs" by (rule takeWhile_digits [OF cs(2)])
    show ?thesis
      unfolding Cons True parseInt10_def integerOf_def Let_def dw
      using cs(1) by (simp add: tw)
  next
    case False
    with assms Cons have ds: "list_all isDigit (c # cs)"
      by (simp add: testInteger_def)
    then have c: "isDigit c" by simp
    have dw: "dropWhile isTrimChar (c # cs) = c # cs"
      using digit_not_trim [OF c] by simp
    have tw: "takeWhile isDigit (c # cs) = c # cs" by (rule takeWhile_digits [OF ds])
    show ?thesis
      unfolding Cons parseInt10_def integerOf_def Let_def dw
      using False digit_not_sign [OF c] by (simp add: tw del: takeWhile.simps)
  qed
qed

lemma parseChatFontSize_string:
  "parseChatFontSize (JSString s) =
     (if \<not> testInteger (trim s) \<or> 2 ^ 1024 - 2 ^ 970 \<le> \<bar>integerOf (trim s)\<bar> then None
      else Some (min CHAT_FONT_SIZE_MAX (max CHAT_FONT_SIZE_MIN (integerOf (trim s)))))"
proof (cases "testInteger (trim s)")
  case False
  then show ?thesis by (simp add: parseChatFontSize_def Let_def)
next
  case True
  then have ne: "trim s \<noteq> []" by (auto simp: testInteger_def)
  have p: "parseInt10 (trim s) = number_of_int (integerOf (trim s))"
    by (rule parseInt10_integer [OF True])
  have unfold: "parseChatFontSize (JSString s) =
      (case number_of_int (integerOf (trim s)) of
         Fin x \<Rightarrow> Some (min CHAT_FONT_SIZE_MAX (max CHAT_FONT_SIZE_MIN \<lfloor>x + 1 / 2\<rfloor>))
       | _ \<Rightarrow> None)"
    using True ne by (simp add: parseChatFontSize_def Let_def p)
  show ?thesis
  proof (cases "2 ^ 1024 - 2 ^ 970 \<le> \<bar>integerOf (trim s)\<bar>")
    case big: True
    then have "\<not> (\<exists>x. number_of_int (integerOf (trim s)) = Fin x)"
      by (simp only: number_of_int_finite_iff not_less)
    then have "parseChatFontSize (JSString s) = None"
      unfolding unfold by (cases "number_of_int (integerOf (trim s))") simp_all
    with big show ?thesis by (simp only: if_True simp_thms)
  next
    case small: False
    then have "\<exists>x. number_of_int (integerOf (trim s)) = Fin x"
      by (simp only: number_of_int_finite_iff not_le)
    then obtain x where x: "number_of_int (integerOf (trim s)) = Fin x" ..
    from number_of_int_clamp [OF x]
    have "parseChatFontSize (JSString s) =
        Some (min CHAT_FONT_SIZE_MAX (max CHAT_FONT_SIZE_MIN (integerOf (trim s))))"
      unfolding unfold x by (simp add: CHAT_FONT_SIZE_MAX_def CHAT_FONT_SIZE_MIN_def)
    with small True show ?thesis by (simp only: if_False simp_thms)
  qed
qed

lemma if_None_iff: "((if P then None else Some y) = None) \<longleftrightarrow> P"
  by simp

text \<open>
  C10, amended. \<open>parseChatFontSize\<close> returns null or an integer from 10 to 24. It returns
  null exactly for null and undefined, for a value that is neither a number nor a string,
  for NaN and the infinities, for a string whose trimmed form is not an optionally
  minus-signed run of decimal digits, and for a run of digits whose integer is of
  magnitude \<open>2 ^ 1024 - 2 ^ 970\<close> or more, which \<open>parseInt\<close> makes an infinity. Otherwise
  it returns the number, or the integer the digits denote, rounded to the nearest integer
  (a tie goes up) and clamped into the range from 10 to 24.
\<close>

theorem parseChatFontSize_result:
  "CHAT_FONT_SIZE_MIN = 10 \<and> CHAT_FONT_SIZE_MAX = 24
   \<and> (\<forall>k. parseChatFontSize v = Some k \<longrightarrow> CHAT_FONT_SIZE_MIN \<le> k \<and> k \<le> CHAT_FONT_SIZE_MAX)
   \<and> parseChatFontSize JSNull = None \<and> parseChatFontSize JSUndefined = None
   \<and> parseChatFontSize JSOther = None
   \<and> (parseChatFontSize (JSNumber n) = None \<longleftrightarrow> n = NaN \<or> n = PosInf \<or> n = NegInf)
   \<and> parseChatFontSize (JSNumber (Fin x)) =
        Some (min CHAT_FONT_SIZE_MAX (max CHAT_FONT_SIZE_MIN \<lfloor>x + 1 / 2\<rfloor>))
   \<and> (parseChatFontSize (JSString s) = None \<longleftrightarrow>
        \<not> testInteger (trim s) \<or> 2 ^ 1024 - 2 ^ 970 \<le> \<bar>integerOf (trim s)\<bar>)
   \<and> (testInteger (trim s) \<and> \<bar>integerOf (trim s)\<bar> < 2 ^ 1024 - 2 ^ 970 \<longrightarrow>
        parseChatFontSize (JSString s) =
          Some (min CHAT_FONT_SIZE_MAX (max CHAT_FONT_SIZE_MIN (integerOf (trim s)))))"
proof (intro conjI allI impI)
  show "CHAT_FONT_SIZE_MIN = 10" "CHAT_FONT_SIZE_MAX = 24"
    by (simp_all add: CHAT_FONT_SIZE_MIN_def CHAT_FONT_SIZE_MAX_def)
  show "parseChatFontSize JSNull = None" "parseChatFontSize JSUndefined = None"
    "parseChatFontSize JSOther = None"
    by (simp_all add: parseChatFontSize_def)
  show "parseChatFontSize (JSNumber n) = None \<longleftrightarrow> n = NaN \<or> n = PosInf \<or> n = NegInf"
    by (cases n) (simp_all add: parseChatFontSize_def)
  show "parseChatFontSize (JSNumber (Fin x)) =
        Some (min CHAT_FONT_SIZE_MAX (max CHAT_FONT_SIZE_MIN \<lfloor>x + 1 / 2\<rfloor>))"
    by (simp add: parseChatFontSize_def)
  show "parseChatFontSize (JSString s) = None \<longleftrightarrow>
        \<not> testInteger (trim s) \<or> 2 ^ 1024 - 2 ^ 970 \<le> \<bar>integerOf (trim s)\<bar>"
    unfolding parseChatFontSize_string by (rule if_None_iff)
  { assume "testInteger (trim s) \<and> \<bar>integerOf (trim s)\<bar> < 2 ^ 1024 - 2 ^ 970"
    then have "\<not> (\<not> testInteger (trim s) \<or> 2 ^ 1024 - 2 ^ 970 \<le> \<bar>integerOf (trim s)\<bar>)"
      by (simp only: not_le simp_thms de_Morgan_disj)
    then show "parseChatFontSize (JSString s) =
          Some (min CHAT_FONT_SIZE_MAX (max CHAT_FONT_SIZE_MIN (integerOf (trim s))))"
      unfolding parseChatFontSize_string by (simp only: if_False) }
  { fix k assume k: "parseChatFontSize v = Some k"
    have "\<exists>y. k = min CHAT_FONT_SIZE_MAX (max CHAT_FONT_SIZE_MIN y)"
    proof (cases v)
      case (JSNumber n)
      with k show ?thesis by (cases n) (auto simp: parseChatFontSize_def)
    next
      case (JSString s')
      with k show ?thesis
        unfolding JSString parseChatFontSize_string by (auto split: if_splits)
    qed (use k in \<open>simp_all add: parseChatFontSize_def\<close>)
    then show "CHAT_FONT_SIZE_MIN \<le> k" "k \<le> CHAT_FONT_SIZE_MAX"
      by (auto simp: CHAT_FONT_SIZE_MIN_def CHAT_FONT_SIZE_MAX_def) }
qed

lemma nines_digits: "testInteger (trim nines)"
  by code_simp

lemma nines_big: "2 ^ 1024 - 2 ^ 970 \<le> \<bar>integerOf (trim nines)\<bar>"
  by code_simp

text \<open>
  C10, as stated, fails on a long run of digits: the trimmed form of 310 nines is a run of
  decimal digits, \<open>parseInt\<close> makes it \<open>Infinity\<close>, and the result is null, not 24.
\<close>

theorem huge_digit_string_counterexample:
  "testInteger (trim nines) \<and> parseChatFontSize (JSString nines) = None"
  using nines_digits nines_big by (simp only: parseChatFontSize_string simp_thms if_True)

theorem parseChatFontSize_result_witness:
  "testInteger (trim (js '' 18 '')) \<and> \<bar>integerOf (trim (js '' 18 ''))\<bar> < 2 ^ 1024 - 2 ^ 970 \<and>
   parseChatFontSize (JSString (js '' 18 '')) = Some 18 \<and>
   parseChatFontSize (JSNumber (Fin (21 / 2))) = Some 11 \<and>
   parseChatFontSize (JSNumber PosInf) = None"
  using parseChatFontSize_result [of "JSString (js '' 18 '')" PosInf "21 / 2" "js '' 18 ''"]
  by (simp add: js_def trim_def isTrimChar_def testInteger_def isDigit_def integerOf_def
      digitsValue_def CHAT_FONT_SIZE_MIN_def CHAT_FONT_SIZE_MAX_def)

end
